theory Spec2Isabelle
  imports Main
begin

section \<open>Phases and exceptions of \<^verbatim>\<open>release/core.py\<close>\<close>

text \<open>
  The five call sites at which a side-effecting collaborator of a step can fail
  (\<^verbatim>\<open>class Phase(Enum)\<close>).
\<close>

datatype Phase = CHECK_INITIAL | CHECK_FINAL | CHECK_ROLLBACK | EXECUTE | ROLLBACK

text \<open>
  What can be raised through the core. First the instances of Python's \<^verbatim>\<open>Exception\<close>
  class: the four exception classes of the module, and \<open>Exception\<close> for an instance of any
  other subclass (labelled by a string). Then \<open>BaseException\<close>, for what is raised outside
  that class (\<^verbatim>\<open>SystemExit\<close>, \<^verbatim>\<open>KeyboardInterrupt\<close>, \<^verbatim>\<open>GeneratorExit\<close>), which no
  \<^verbatim>\<open>except Exception\<close> clause catches.

  The type parameter \<open>'st\<close> is the Observed State of the steps. What a check returns is a
  Python value, which may be \<^verbatim>\<open>None\<close>: it is a value of \<open>'st option\<close>, \<open>Some\<close> of an observed
  state or \<open>None\<close>. The states that the exceptions carry are such values.

  \<^item> \<open>ExecutionError name phase track\<close>: \<^verbatim>\<open>track\<close> is \<^verbatim>\<open>traceback.format_exc()\<close>, the
    rendering of the exception being handled; the model keeps that exception itself.
  \<^item> \<open>RollbackPostconditionError name actual expected\<close>: the expected state is the step's
    \<^verbatim>\<open>initial\<close> attribute.
\<close>

datatype 'st exc =
    ExecutionError string Phase "'st exc"
  | PreconditionError string "'st option"
  | PostconditionError string "'st option" "'st option"
  | RollbackPostconditionError string "'st option" "'st option"
  | Exception string
  | BaseException string

text \<open>\<^verbatim>\<open>isinstance(e, Exception)\<close>: what an \<^verbatim>\<open>except Exception\<close> clause catches.\<close>

fun is_Exception :: "'st exc \<Rightarrow> bool" where
  "is_Exception (BaseException x) = False"
| "is_Exception e = True"

section \<open>Steps\<close>

text \<open>
  \<^verbatim>\<open>class Step\<close>. The collaborators \<^verbatim>\<open>check\<close>, \<^verbatim>\<open>action\<close> and \<^verbatim>\<open>rollback_action\<close> are
  closures with side effects on the system being released: each one is a function from
  the state \<open>'w\<close> of that system to its outcome (\<open>Inl\<close> the exception it raises, \<open>Inr\<close> the
  value it returns) and the new state. As the class's docstring allows a subclass to use
  the stored initial state in \<^verbatim>\<open>action\<close> and \<^verbatim>\<open>rollback_action\<close> (\<^verbatim>\<open>fs.Unlink\<close> does), these two
  take the current value of \<^verbatim>\<open>self.initial\<close> as an argument. \<^verbatim>\<open>precondition\<close> is a predicate
  on what the check returned, and may raise. A collaborator that never returns is not
  modelled. The attribute \<^verbatim>\<open>initial\<close> holds \<^verbatim>\<open>None\<close> at first and what the check returned
  afterwards, which may be \<^verbatim>\<open>None\<close> again. The attribute \<^verbatim>\<open>stdout\<close> only carries the
  transcript and is left out, as is everything that is printed.
\<close>

record ('st, 'w) Step =
  name :: string
  check :: "'w \<Rightarrow> ('st exc + 'st option) \<times> 'w"
  precondition :: "'st option \<Rightarrow> 'st exc + bool"
  expected :: "'st option"
  action :: "'st option \<Rightarrow> 'w \<Rightarrow> ('st exc + unit) \<times> 'w"
  rollback_action :: "'st option \<Rightarrow> 'w \<Rightarrow> ('st exc + unit) \<times> 'w"
  initial :: "'st option"

text \<open>\<^verbatim>\<open>Step.__init__\<close>: the initial state starts as \<^verbatim>\<open>None\<close>.\<close>

definition Step_init ::
  "string \<Rightarrow> ('w \<Rightarrow> ('st exc + 'st option) \<times> 'w) \<Rightarrow> ('st option \<Rightarrow> 'st exc + bool) \<Rightarrow>
   'st option \<Rightarrow>
   ('st option \<Rightarrow> 'w \<Rightarrow> ('st exc + unit) \<times> 'w) \<Rightarrow>
   ('st option \<Rightarrow> 'w \<Rightarrow> ('st exc + unit) \<times> 'w) \<Rightarrow> ('st, 'w) Step" where
  "Step_init nm chk pre exp act rb =
     \<lparr>name = nm, check = chk, precondition = pre, expected = exp,
      action = act, rollback_action = rb, initial = None\<rparr>"

text \<open>
  What the claims say about calls that are or are not made is read from a log of the
  calls, which the model keeps beside the program state: \<open>StepExecute n\<close> and
  \<open>StepRollback n\<close> when \<^verbatim>\<open>Step.execute\<close> and \<^verbatim>\<open>Step.rollback\<close> of the step named \<open>n\<close> are
  entered, \<open>Called n p\<close> when a wrapped collaborator of that step is invoked at phase \<open>p\<close>,
  \<open>ReleaseRollback\<close> when \<^verbatim>\<open>Release.rollback\<close> is entered.
\<close>

datatype event =
    StepExecute string
  | StepRollback string
  | Called string Phase
  | ReleaseRollback

text \<open>
  Step objects are mutable and shared by reference between \<^verbatim>\<open>Release.steps\<close> and
  \<^verbatim>\<open>Release.executed_steps\<close>: they live in a store, addressed by numbers. The machine
  state is the store, the state of the system being released, and the log.
\<close>

record ('st, 'w) machine =
  heap :: "nat \<Rightarrow> ('st, 'w) Step"
  world :: 'w
  trace :: "event list"

definition emit :: "event \<Rightarrow> ('st, 'w) machine \<Rightarrow> ('st, 'w) machine" where
  "emit ev m = m\<lparr>trace := trace m @ [ev]\<rparr>"

text \<open>
  \<^verbatim>\<open>Step.wrap\<close>: run the collaborator; an instance of \<^verbatim>\<open>Exception\<close> that it raises is
  replaced by an \<^verbatim>\<open>ExecutionError\<close> with the step's name, the phase and the trace; what
  \<^verbatim>\<open>except Exception\<close> does not catch passes through.
\<close>

definition wrap ::
  "('st, 'w) Step \<Rightarrow> Phase \<Rightarrow> ('w \<Rightarrow> ('st exc + 'a) \<times> 'w) \<Rightarrow>
   ('st, 'w) machine \<Rightarrow> ('st exc + 'a) \<times> ('st, 'w) machine" where
  "wrap s phase act m =
     (case act (world m) of
        (Inr v, w) \<Rightarrow> (Inr v, emit (Called (name s) phase) (m\<lparr>world := w\<rparr>))
      | (Inl e, w) \<Rightarrow>
          (if is_Exception e then Inl (ExecutionError (name s) phase e) else Inl e,
           emit (Called (name s) phase) (m\<lparr>world := w\<rparr>)))"

text \<open>The five wrapped attributes that \<^verbatim>\<open>Step.__init__\<close> builds.\<close>

definition check_initial ::
  "('st, 'w) Step \<Rightarrow> ('st, 'w) machine \<Rightarrow> ('st exc + 'st option) \<times> ('st, 'w) machine" where
  "check_initial s = wrap s CHECK_INITIAL (check s)"

definition check_final ::
  "('st, 'w) Step \<Rightarrow> ('st, 'w) machine \<Rightarrow> ('st exc + 'st option) \<times> ('st, 'w) machine" where
  "check_final s = wrap s CHECK_FINAL (check s)"

definition check_rollback ::
  "('st, 'w) Step \<Rightarrow> ('st, 'w) machine \<Rightarrow> ('st exc + 'st option) \<times> ('st, 'w) machine" where
  "check_rollback s = wrap s CHECK_ROLLBACK (check s)"

definition wrapped_action ::
  "('st, 'w) Step \<Rightarrow> ('st, 'w) machine \<Rightarrow> ('st exc + unit) \<times> ('st, 'w) machine" where
  "wrapped_action s = wrap s EXECUTE (action s (initial s))"

definition wrapped_rollback_action ::
  "('st, 'w) Step \<Rightarrow> ('st, 'w) machine \<Rightarrow> ('st exc + unit) \<times> ('st, 'w) machine" where
  "wrapped_rollback_action s = wrap s ROLLBACK (rollback_action s (initial s))"

text \<open>\<^verbatim>\<open>self.initial = initial\<close> on the step object at address \<open>a\<close>.\<close>

definition set_initial :: "nat \<Rightarrow> 'st option \<Rightarrow> ('st, 'w) machine \<Rightarrow> ('st, 'w) machine" where
  "set_initial a v m = m\<lparr>heap := (heap m)(a := (heap m a)\<lparr>initial := v\<rparr>)\<rparr>"

text \<open>
  \<^verbatim>\<open>Step.execute\<close> of the step object at address \<open>a\<close>: check and store the initial state,
  test the precondition, run the action, check the final state against the expected
  one. A raise is the result \<open>Inl\<close>.
\<close>

definition step_execute ::
  "nat \<Rightarrow> ('st, 'w) machine \<Rightarrow> ('st exc + unit) \<times> ('st, 'w) machine" where
  "step_execute a m0 =
     (let m = emit (StepExecute (name (heap m0 a))) m0 in
      case check_initial (heap m a) m of
        (Inl e, m1) \<Rightarrow> (Inl e, m1)
      | (Inr ini, m1) \<Rightarrow>
          (let m2 = set_initial a ini m1 in
           case precondition (heap m2 a) ini of
             Inl e \<Rightarrow> (Inl e, m2)
           | Inr False \<Rightarrow> (Inl (PreconditionError (name (heap m2 a)) ini), m2)
           | Inr True \<Rightarrow>
               (case wrapped_action (heap m2 a) m2 of
                  (Inl e, m3) \<Rightarrow> (Inl e, m3)
                | (Inr _, m3) \<Rightarrow>
                    (case check_final (heap m3 a) m3 of
                       (Inl e, m4) \<Rightarrow> (Inl e, m4)
                     | (Inr final, m4) \<Rightarrow>
                         if final = expected (heap m4 a) then (Inr (), m4)
                         else (Inl (PostconditionError (name (heap m4 a)) final
                                      (expected (heap m4 a))), m4)))))"

text \<open>
  \<^verbatim>\<open>Step.rollback\<close>: run the rollback action, then check that the observed state is equal
  to what \<^verbatim>\<open>self.initial\<close> holds.
\<close>

definition step_rollback ::
  "nat \<Rightarrow> ('st, 'w) machine \<Rightarrow> ('st exc + unit) \<times> ('st, 'w) machine" where
  "step_rollback a m0 =
     (let m = emit (StepRollback (name (heap m0 a))) m0 in
      case wrapped_rollback_action (heap m a) m of
        (Inl e, m1) \<Rightarrow> (Inl e, m1)
      | (Inr _, m1) \<Rightarrow>
          (case check_rollback (heap m1 a) m1 of
             (Inl e, m2) \<Rightarrow> (Inl e, m2)
           | (Inr final, m2) \<Rightarrow>
               if final = initial (heap m2 a) then (Inr (), m2)
               else (Inl (RollbackPostconditionError (name (heap m2 a)) final
                            (initial (heap m2 a))), m2)))"

section \<open>Releases\<close>

text \<open>
  \<^verbatim>\<open>class Release\<close>: \<^verbatim>\<open>steps\<close> and \<^verbatim>\<open>executed_steps\<close> are lists of references to step
  objects. The field \<open>release_name\<close> is the attribute \<^verbatim>\<open>name\<close>; the output sink is left out.
\<close>

record 'st Release =
  release_name :: string
  steps :: "nat list"
  executed_steps :: "nat list"
  exceptions :: "'st exc list"

text \<open>\<^verbatim>\<open>Release.__init__\<close>.\<close>

definition Release_init :: "string \<Rightarrow> nat list \<Rightarrow> 'st Release" where
  "Release_init nm ss = \<lparr>release_name = nm, steps = ss, executed_steps = [], exceptions = []\<rparr>"

text \<open>
  \<^verbatim>\<open>Release.explain_exceptions\<close>: the recorded exceptions are reversed in place and
  printed; the printing is left out.
\<close>

definition explain_exceptions :: "'st Release \<Rightarrow> 'st Release" where
  "explain_exceptions r = (if exceptions r \<noteq> [] then r\<lparr>exceptions := rev (exceptions r)\<rparr> else r)"

text \<open>
  The loop of \<^verbatim>\<open>Release.rollback\<close>: \<^verbatim>\<open>for step in self.executed_steps\<close>, leaving the loop at
  the first \<^verbatim>\<open>step.rollback()\<close> that raises an instance of \<^verbatim>\<open>Exception\<close>
  (\<^verbatim>\<open>except Exception: break\<close>). What that clause does not catch leaves the loop and the
  method: it is the first component of the result, \<open>None\<close> when the loop ends otherwise.
\<close>

fun rollback_loop ::
  "nat list \<Rightarrow> ('st, 'w) machine \<Rightarrow> 'st exc option \<times> ('st, 'w) machine" where
  "rollback_loop [] m = (None, m)"
| "rollback_loop (a # as) m =
     (case step_rollback a m of
        (Inl e, m') \<Rightarrow> if is_Exception e then (None, m') else (Some e, m')
      | (Inr _, m') \<Rightarrow> rollback_loop as m')"

text \<open>
  \<^verbatim>\<open>Release.rollback\<close>: the loop, then \<^verbatim>\<open>explain_exceptions\<close> if the loop has not raised.
\<close>

definition release_rollback ::
  "'st Release \<Rightarrow> ('st, 'w) machine \<Rightarrow> 'st exc option \<times> 'st Release \<times> ('st, 'w) machine" where
  "release_rollback r m =
     (case rollback_loop (executed_steps r) (emit ReleaseRollback m) of
        (Some b, m') \<Rightarrow> (Some b, r, m')
      | (None, m') \<Rightarrow> (None, explain_exceptions r, m'))"

text \<open>
  The loop of \<^verbatim>\<open>Release.execute\<close> over the remaining steps. The three \<^verbatim>\<open>except\<close> clauses
  record the exception, append the step where the source does, roll back and raise the
  exception again, unless \<^verbatim>\<open>self.rollback()\<close> has raised, which then leaves the method
  instead; any other exception of the step leaves the loop as it is.
\<close>

definition record_exception :: "'st exc \<Rightarrow> 'st Release \<Rightarrow> 'st Release" where
  "record_exception e r = r\<lparr>exceptions := exceptions r @ [e]\<rparr>"

definition append_executed :: "nat \<Rightarrow> 'st Release \<Rightarrow> 'st Release" where
  "append_executed a r = r\<lparr>executed_steps := executed_steps r @ [a]\<rparr>"

definition fail_with ::
  "'st exc \<Rightarrow> 'st Release \<Rightarrow> ('st, 'w) machine \<Rightarrow>
   ('st exc + unit) \<times> 'st Release \<times> ('st, 'w) machine" where
  "fail_with e r m =
     (case release_rollback r m of
        (Some b, r', m') \<Rightarrow> (Inl b, r', m')
      | (None, r', m') \<Rightarrow> (Inl e, r', m'))"

fun execute_loop ::
  "nat list \<Rightarrow> 'st Release \<Rightarrow> ('st, 'w) machine \<Rightarrow>
   ('st exc + unit) \<times> 'st Release \<times> ('st, 'w) machine" where
  "execute_loop [] r m = (Inr (), r, m)"
| "execute_loop (a # as) r m =
     (case step_execute a m of
        (Inr _, m') \<Rightarrow> execute_loop as (append_executed a r) m'
      | (Inl (PreconditionError n s), m') \<Rightarrow>
          fail_with (PreconditionError n s) (record_exception (PreconditionError n s) r) m'
      | (Inl (PostconditionError n s t), m') \<Rightarrow>
          fail_with (PostconditionError n s t)
            (append_executed a (record_exception (PostconditionError n s t) r)) m'
      | (Inl (ExecutionError n p t), m') \<Rightarrow>
          fail_with (ExecutionError n p t)
            (if p = CHECK_FINAL
             then append_executed a (record_exception (ExecutionError n p t) r)
             else record_exception (ExecutionError n p t) r) m'
      | (Inl e, m') \<Rightarrow> (Inl e, r, m'))"

definition release_execute ::
  "'st Release \<Rightarrow> ('st, 'w) machine \<Rightarrow>
   ('st exc + unit) \<times> 'st Release \<times> ('st, 'w) machine" where
  "release_execute r m = execute_loop (steps r) r m"

section \<open>Reading runs\<close>

text \<open>The names of the steps whose \<^verbatim>\<open>execute\<close>, and whose \<^verbatim>\<open>rollback\<close>, a log records, in order.\<close>

fun attempts :: "event list \<Rightarrow> string list" where
  "attempts [] = []"
| "attempts (StepExecute n # es) = n # attempts es"
| "attempts (_ # es) = attempts es"

fun rollbacks :: "event list \<Rightarrow> string list" where
  "rollbacks [] = []"
| "rollbacks (StepRollback n # es) = n # rollbacks es"
| "rollbacks (_ # es) = rollbacks es"

text \<open>The events that a run from machine state \<open>m\<close> to machine state \<open>m'\<close> has added to the log.\<close>

definition new_events :: "('st, 'w) machine \<Rightarrow> ('st, 'w) machine \<Rightarrow> event list" where
  "new_events m m' = drop (length (trace m)) (trace m')"

text \<open>
  A step succeeds in a machine state when its check returns a state, its precondition
  holds of that state, its action returns, and its check then returns the expected
  state.
\<close>

definition step_succeeds :: "nat \<Rightarrow> ('st, 'w) machine \<Rightarrow> bool" where
  "step_succeeds a m =
     (case check (heap m a) (world m) of
        (Inl _, _) \<Rightarrow> False
      | (Inr ini, w1) \<Rightarrow>
          precondition (heap m a) ini = Inr True \<and>
          (case action (heap m a) ini w1 of
             (Inl _, _) \<Rightarrow> False
           | (Inr _, w2) \<Rightarrow>
               (case check (heap m a) w2 of
                  (Inl _, _) \<Rightarrow> False
                | (Inr final, _) \<Rightarrow> final = expected (heap m a))))"

text \<open>The machine state after the steps \<open>as\<close> have been executed one after the other.\<close>

fun run_steps :: "nat list \<Rightarrow> ('st, 'w) machine \<Rightarrow> ('st, 'w) machine" where
  "run_steps [] m = m"
| "run_steps (a # as) m = run_steps as (snd (step_execute a m))"

text \<open>Each of the steps \<open>as\<close> succeeds in the machine state that its predecessors leave.\<close>

fun steps_succeed :: "nat list \<Rightarrow> ('st, 'w) machine \<Rightarrow> bool" where
  "steps_succeed [] m = True"
| "steps_succeed (a # as) m = (step_succeeds a m \<and> steps_succeed as (snd (step_execute a m)))"

text \<open>What a wrapped collaborator of the step named \<open>n\<close> raises at phase \<open>p\<close> when the
  collaborator raises \<open>e\<close>.\<close>

definition reclassified :: "string \<Rightarrow> Phase \<Rightarrow> 'st exc \<Rightarrow> 'st exc" where
  "reclassified n p e = (if is_Exception e then ExecutionError n p e else e)"

text \<open>The exceptions for which \<^verbatim>\<open>Release.execute\<close> has an \<^verbatim>\<open>except\<close> clause.\<close>

fun caught :: "'st exc \<Rightarrow> bool" where
  "caught (PreconditionError n s) = True"
| "caught (PostconditionError n s t) = True"
| "caught (ExecutionError n p t) = True"
| "caught e = False"

text \<open>The outcomes of \<^verbatim>\<open>Step.execute\<close> after which \<^verbatim>\<open>Release.execute\<close> appends the step to
  \<^verbatim>\<open>executed_steps\<close>.\<close>

fun appends :: "'st exc + unit \<Rightarrow> bool" where
  "appends (Inr u) = True"
| "appends (Inl (PostconditionError n s t)) = True"
| "appends (Inl (ExecutionError n p t)) = (p = CHECK_FINAL)"
| "appends (Inl e) = False"

text \<open>
  What the loop of \<^verbatim>\<open>Release.rollback\<close> does over the steps \<open>as\<close> when the method is entered
  in the machine state \<open>m\<close>, and the exception that \<^verbatim>\<open>Release.execute\<close> raises after it when it
  has caught \<open>e\<close>.
\<close>

definition cascade ::
  "nat list \<Rightarrow> ('st, 'w) machine \<Rightarrow> 'st exc option \<times> ('st, 'w) machine" where
  "cascade as m = rollback_loop as (emit ReleaseRollback m)"

definition raised_after :: "'st exc option \<Rightarrow> 'st exc \<Rightarrow> 'st exc" where
  "raised_after b e = (case b of None \<Rightarrow> e | Some x \<Rightarrow> x)"

text \<open>The three components of what \<^verbatim>\<open>Release.execute\<close> leaves: the outcome, the release, the machine state.\<close>

definition outcome :: "'a \<times> 'b \<times> 'c \<Rightarrow> 'a" where
  "outcome x = fst x"

definition final_release :: "'a \<times> 'b \<times> 'c \<Rightarrow> 'b" where
  "final_release x = fst (snd x)"

definition final_machine :: "'a \<times> 'b \<times> 'c \<Rightarrow> 'c" where
  "final_machine x = snd (snd x)"

section \<open>The steps of the test suite\<close>

text \<open>
  The steps that \<^verbatim>\<open>test/core.py\<close> builds, and a few more in their style. Their observed
  states are dictionaries, written as association lists; the system they act on is a
  number.
\<close>

type_synonym dict = "(string \<times> nat) list"

definition success :: "(dict, nat) Step" where
  "success = Step_init ''success'' (\<lambda>w. (Inr (Some []), w)) (\<lambda>_. Inr True) (Some [])
     (\<lambda>_ w. (Inr (), w)) (\<lambda>_ w. (Inr (), w))"

text \<open>The succeeding step again, under a name of one's choice.\<close>

definition succeeding :: "string \<Rightarrow> (dict, nat) Step" where
  "succeeding n = Step_init n (\<lambda>w. (Inr (Some []), w)) (\<lambda>_. Inr True) (Some [])
     (\<lambda>_ w. (Inr (), w)) (\<lambda>_ w. (Inr (), w))"

definition failure_check :: "(dict, nat) Step" where
  "failure_check = Step_init ''failure_check'' (\<lambda>w. (Inl (Exception ''check''), w))
     (\<lambda>_. Inr True) (Some []) (\<lambda>_ w. (Inr (), w)) (\<lambda>_ w. (Inr (), w))"

definition failure_action :: "(dict, nat) Step" where
  "failure_action = Step_init ''failure_action'' (\<lambda>w. (Inr (Some []), w)) (\<lambda>_. Inr True)
     (Some []) (\<lambda>_ w. (Inl (Exception ''action''), w)) (\<lambda>_ w. (Inr (), w))"

definition failure_rollback_action :: "(dict, nat) Step" where
  "failure_rollback_action = Step_init ''failure_rollback_action'' (\<lambda>w. (Inr (Some []), w))
     (\<lambda>_. Inr True) (Some []) (\<lambda>_ w. (Inr (), w)) (\<lambda>_ w. (Inl (Exception ''rollback''), w))"

definition failure_precondition :: "(dict, nat) Step" where
  "failure_precondition = Step_init ''failure_precondition'' (\<lambda>w. (Inr (Some []), w))
     (\<lambda>_. Inr False) (Some []) (\<lambda>_ w. (Inr (), w)) (\<lambda>_ w. (Inr (), w))"

definition failure_postcondition :: "(dict, nat) Step" where
  "failure_postcondition = Step_init ''failure_postcondition'' (\<lambda>w. (Inr (Some []), w))
     (\<lambda>_. Inr True) (Some [(''a'', 1)]) (\<lambda>_ w. (Inr (), w)) (\<lambda>_ w. (Inr (), w))"

text \<open>A step whose check fails once its action has run, and one whose check fails once its
  rollback action has run.\<close>

definition failure_check_final :: "(dict, nat) Step" where
  "failure_check_final = Step_init ''failure_check_final''
     (\<lambda>w. if w = 1 then (Inl (Exception ''check''), w) else (Inr (Some []), w))
     (\<lambda>_. Inr True) (Some []) (\<lambda>_ w. (Inr (), 1)) (\<lambda>_ w. (Inr (), w))"

definition failure_check_rollback :: "(dict, nat) Step" where
  "failure_check_rollback = Step_init ''failure_check_rollback''
     (\<lambda>w. if w = 2 then (Inl (Exception ''check''), w) else (Inr (Some []), w))
     (\<lambda>_. Inr True) (Some []) (\<lambda>_ w. (Inr (), w)) (\<lambda>_ w. (Inr (), 2))"

text \<open>A step whose postcondition fails and whose rollback action then raises: an instance
  of \<^verbatim>\<open>Exception\<close> in the first, \<^verbatim>\<open>SystemExit\<close> in the second.\<close>

definition failure_postcondition_rollback :: "(dict, nat) Step" where
  "failure_postcondition_rollback = Step_init ''failure_postcondition_rollback''
     (\<lambda>w. (Inr (Some []), w)) (\<lambda>_. Inr True) (Some [(''a'', 1)])
     (\<lambda>_ w. (Inr (), w)) (\<lambda>_ w. (Inl (Exception ''rollback''), w))"


text \<open>A step whose action calls \<^verbatim>\<open>sys.exit\<close>.\<close>

definition exiting_action :: "(dict, nat) Step" where
  "exiting_action = Step_init ''exiting_action'' (\<lambda>w. (Inr (Some []), w)) (\<lambda>_. Inr True)
     (Some []) (\<lambda>_ w. (Inl (BaseException ''SystemExit''), w)) (\<lambda>_ w. (Inr (), w))"

text \<open>A step whose precondition raises the given exception.\<close>

definition raising_precondition :: "dict exc \<Rightarrow> (dict, nat) Step" where
  "raising_precondition e = Step_init ''raising_precondition'' (\<lambda>w. (Inr (Some []), w))
     (\<lambda>_. Inl e) (Some []) (\<lambda>_ w. (Inr (), w)) (\<lambda>_ w. (Inr (), w))"

text \<open>A step whose check returns \<^verbatim>\<open>None\<close>, as a function without a \<^verbatim>\<open>return\<close> does, and that
  expects \<^verbatim>\<open>None\<close>.\<close>

definition returning_none :: "(dict, nat) Step" where
  "returning_none = Step_init ''returning_none'' (\<lambda>w. (Inr None, w)) (\<lambda>_. Inr True) None
     (\<lambda>_ w. (Inr (), w)) (\<lambda>_ w. (Inr (), w))"

text \<open>A step that observes the number, increments it, and expects it to be \<open>1\<close> then.\<close>

definition counting :: "(dict, nat) Step" where
  "counting = Step_init ''counting'' (\<lambda>w. (Inr (Some [(''w'', w)]), w)) (\<lambda>_. Inr True)
     (Some [(''w'', 1)]) (\<lambda>_ w. (Inr (), w + 1)) (\<lambda>_ w. (Inr (), w - 1))"

text \<open>The machine state in which the step objects \<open>ss\<close> have just been built, at the
  addresses \<open>0\<close>, \<open>1\<close>, ..., the system being in state \<open>w\<close>; every other address holds
  the step \<open>d\<close>.\<close>

definition machine_init ::
  "('st, 'w) Step \<Rightarrow> ('st, 'w) Step list \<Rightarrow> 'w \<Rightarrow> ('st, 'w) machine" where
  "machine_init d ss w =
     \<lparr>heap = (\<lambda>a. if a < length ss then ss ! a else d), world = w, trace = []\<rparr>"

definition test_machine :: "(dict, nat) Step list \<Rightarrow> (dict, nat) machine" where
  "test_machine ss = machine_init success ss 0"

section \<open>The link steps of \<^verbatim>\<open>release/fs.py\<close>\<close>

text \<open>
  \<^verbatim>\<open>fs.Symlink\<close> and \<^verbatim>\<open>fs.Unlink\<close>. The system is a file system: what is at each path, nothing
  (\<open>None\<close>), a file or a symbolic link with its target. Paths are absolute and are taken
  as they are written.

  \<^item> \<^verbatim>\<open>os.path.exists\<close> follows links and is false for a link that leads nowhere; as Linux
    does, it follows at most 40 links.
  \<^item> \<^verbatim>\<open>os.symlink\<close> raises when there is something at the link path, \<^verbatim>\<open>os.remove\<close> when
    there is nothing.
  \<^item> The observed state is the dictionary with the keys \<^verbatim>\<open>file_exists\<close> and \<^verbatim>\<open>link\<close>, as a
    pair.
\<close>

datatype entry = File | Link string

type_synonym filesystem = "string \<Rightarrow> entry option"

type_synonym link_state = "bool \<times> string option"

fun resolves :: "nat \<Rightarrow> filesystem \<Rightarrow> string \<Rightarrow> bool" where
  "resolves 0 fs p = False"
| "resolves (Suc n) fs p =
     (case fs p of None \<Rightarrow> False | Some File \<Rightarrow> True | Some (Link t) \<Rightarrow> resolves n fs t)"

definition os_path_exists :: "filesystem \<Rightarrow> string \<Rightarrow> bool" where
  "os_path_exists fs p = resolves 41 fs p"

definition check_link ::
  "string \<Rightarrow> filesystem \<Rightarrow> (link_state exc + link_state option) \<times> filesystem" where
  "check_link link_path fs =
     (if os_path_exists fs link_path
      then (case fs link_path of
              Some (Link t) \<Rightarrow> (Inr (Some (True, Some t)), fs)
            | _ \<Rightarrow> (Inr (Some (True, None)), fs))
      else (Inr (Some (False, None)), fs))"

definition os_symlink ::
  "string \<Rightarrow> string \<Rightarrow> filesystem \<Rightarrow> (link_state exc + unit) \<times> filesystem" where
  "os_symlink src dst fs =
     (case fs dst of
        None \<Rightarrow> (Inr (), fs(dst := Some (Link src)))
      | Some x \<Rightarrow> (Inl (Exception ''FileExistsError''), fs))"

definition os_remove :: "string \<Rightarrow> filesystem \<Rightarrow> (link_state exc + unit) \<times> filesystem" where
  "os_remove p fs =
     (case fs p of
        None \<Rightarrow> (Inl (Exception ''FileNotFoundError''), fs)
      | Some x \<Rightarrow> (Inr (), fs(p := None)))"

text \<open>\<^verbatim>\<open>Symlink(src_path, link_path)\<close>. Subscripting \<^verbatim>\<open>None\<close> raises \<^verbatim>\<open>TypeError\<close>.\<close>

definition Symlink :: "string \<Rightarrow> string \<Rightarrow> (link_state, filesystem) Step" where
  "Symlink src_path link_path =
     Step_init (''link '' @ link_path @ '' to '' @ src_path) (check_link link_path)
       (\<lambda>state. case state of
            None \<Rightarrow> Inl (Exception ''TypeError'')
          | Some s \<Rightarrow> Inr (\<not> fst s))
       (Some (True, Some src_path))
       (\<lambda>ini. os_symlink src_path link_path)
       (\<lambda>ini. os_remove link_path)"

text \<open>\<^verbatim>\<open>Unlink(link_path)\<close>; its action and its rollback action read \<^verbatim>\<open>self.initial\<close>.\<close>

definition Unlink :: "string \<Rightarrow> (link_state, filesystem) Step" where
  "Unlink link_path =
     Step_init (''unlink '' @ link_path) (check_link link_path)
       (\<lambda>state. case state of
            None \<Rightarrow> Inl (Exception ''TypeError'')
          | Some s \<Rightarrow> Inr (if fst s then snd s \<noteq> None else True))
       (Some (False, None))
       (\<lambda>ini fs. case ini of
            None \<Rightarrow> (Inl (Exception ''TypeError''), fs)
          | Some s \<Rightarrow> if fst s then os_remove link_path fs else (Inr (), fs))
       (\<lambda>ini fs. case ini of
            None \<Rightarrow> (Inl (Exception ''TypeError''), fs)
          | Some s \<Rightarrow>
              if fst s
              then (case snd s of
                      None \<Rightarrow> (Inl (Exception ''TypeError''), fs)
                    | Some t \<Rightarrow> os_symlink t link_path fs)
              else (Inr (), fs))"

text \<open>A file system with three versions of a file and the link \<open>current\<close> to the first.\<close>

definition three_versions :: filesystem where
  "three_versions =
     (\<lambda>p. None)(''v1'' := Some File, ''v2'' := Some File, ''v3'' := Some File,
       ''current'' := Some (Link ''v1''))"

text \<open>Two stores hold the same steps, up to their stored initial states.\<close>

definition same_code :: "(nat \<Rightarrow> ('st, 'w) Step) \<Rightarrow> (nat \<Rightarrow> ('st, 'w) Step) \<Rightarrow> bool" where
  "same_code h h' =
     (\<forall>b. name (h' b) = name (h b) \<and> check (h' b) = check (h b) \<and>
          precondition (h' b) = precondition (h b) \<and> expected (h' b) = expected (h b) \<and>
          action (h' b) = action (h b) \<and> rollback_action (h' b) = rollback_action (h b))"

section \<open>Paths through \<^verbatim>\<open>Step.execute\<close> and \<^verbatim>\<open>Step.rollback\<close>\<close>

lemmas step_defs = step_execute_def check_initial_def check_final_def wrapped_action_def
  wrap_def emit_def set_initial_def reclassified_def Let_def

lemmas rb_defs = step_rollback_def wrapped_rollback_action_def check_rollback_def
  wrap_def emit_def reclassified_def Let_def

lemma step_execute_check_raises:
  assumes "check (heap m a) (world m) = (Inl e, w1)"
  shows "step_execute a m =
           (Inl (reclassified (name (heap m a)) CHECK_INITIAL e),
            m\<lparr>world := w1,
              trace := trace m @ [StepExecute (name (heap m a)), Called (name (heap m a)) CHECK_INITIAL]\<rparr>)"
  using assms by (simp add: step_defs)

lemma step_execute_precondition_raises:
  assumes "check (heap m a) (world m) = (Inr ini, w1)"
    and "precondition (heap m a) ini = Inl e"
  shows "step_execute a m =
           (Inl e,
            m\<lparr>heap := (heap m)(a := (heap m a)\<lparr>initial := ini\<rparr>), world := w1,
              trace := trace m @ [StepExecute (name (heap m a)), Called (name (heap m a)) CHECK_INITIAL]\<rparr>)"
  using assms by (simp add: step_defs)

lemma step_execute_precondition_false:
  assumes "check (heap m a) (world m) = (Inr ini, w1)"
    and "precondition (heap m a) ini = Inr False"
  shows "step_execute a m =
           (Inl (PreconditionError (name (heap m a)) ini),
            m\<lparr>heap := (heap m)(a := (heap m a)\<lparr>initial := ini\<rparr>), world := w1,
              trace := trace m @ [StepExecute (name (heap m a)), Called (name (heap m a)) CHECK_INITIAL]\<rparr>)"
  using assms by (simp add: step_defs)

lemma step_execute_action_raises:
  assumes "check (heap m a) (world m) = (Inr ini, w1)"
    and "precondition (heap m a) ini = Inr True"
    and "action (heap m a) ini w1 = (Inl e, w2)"
  shows "step_execute a m =
           (Inl (reclassified (name (heap m a)) EXECUTE e),
            m\<lparr>heap := (heap m)(a := (heap m a)\<lparr>initial := ini\<rparr>), world := w2,
              trace := trace m @ [StepExecute (name (heap m a)), Called (name (heap m a)) CHECK_INITIAL,
                                  Called (name (heap m a)) EXECUTE]\<rparr>)"
  using assms by (simp add: step_defs)

lemma step_execute_final_check_raises:
  assumes "check (heap m a) (world m) = (Inr ini, w1)"
    and "precondition (heap m a) ini = Inr True"
    and "action (heap m a) ini w1 = (Inr u, w2)"
    and "check (heap m a) w2 = (Inl e, w3)"
  shows "step_execute a m =
           (Inl (reclassified (name (heap m a)) CHECK_FINAL e),
            m\<lparr>heap := (heap m)(a := (heap m a)\<lparr>initial := ini\<rparr>), world := w3,
              trace := trace m @ [StepExecute (name (heap m a)), Called (name (heap m a)) CHECK_INITIAL,
                                  Called (name (heap m a)) EXECUTE, Called (name (heap m a)) CHECK_FINAL]\<rparr>)"
  using assms by (simp add: step_defs)

lemma step_execute_postcondition_fails:
  assumes "check (heap m a) (world m) = (Inr ini, w1)"
    and "precondition (heap m a) ini = Inr True"
    and "action (heap m a) ini w1 = (Inr u, w2)"
    and "check (heap m a) w2 = (Inr final, w3)"
    and "final \<noteq> expected (heap m a)"
  shows "step_execute a m =
           (Inl (PostconditionError (name (heap m a)) final (expected (heap m a))),
            m\<lparr>heap := (heap m)(a := (heap m a)\<lparr>initial := ini\<rparr>), world := w3,
              trace := trace m @ [StepExecute (name (heap m a)), Called (name (heap m a)) CHECK_INITIAL,
                                  Called (name (heap m a)) EXECUTE, Called (name (heap m a)) CHECK_FINAL]\<rparr>)"
  using assms by (simp add: step_defs)

lemma step_execute_succeeds:
  assumes "check (heap m a) (world m) = (Inr ini, w1)"
    and "precondition (heap m a) ini = Inr True"
    and "action (heap m a) ini w1 = (Inr u, w2)"
    and "check (heap m a) w2 = (Inr (expected (heap m a)), w3)"
  shows "step_execute a m =
           (Inr (),
            m\<lparr>heap := (heap m)(a := (heap m a)\<lparr>initial := ini\<rparr>), world := w3,
              trace := trace m @ [StepExecute (name (heap m a)), Called (name (heap m a)) CHECK_INITIAL,
                                  Called (name (heap m a)) EXECUTE, Called (name (heap m a)) CHECK_FINAL]\<rparr>)"
  using assms by (simp add: step_defs)

lemmas step_execute_paths = step_execute_check_raises step_execute_precondition_raises
  step_execute_precondition_false step_execute_action_raises step_execute_final_check_raises
  step_execute_postcondition_fails step_execute_succeeds

lemma step_succeeds_iff: "step_succeeds a m \<longleftrightarrow> fst (step_execute a m) = Inr ()"
  by (auto simp: step_succeeds_def step_defs split: prod.splits sum.splits bool.splits)

lemma step_rollback_action_raises:
  assumes "rollback_action (heap m a) (initial (heap m a)) (world m) = (Inl e, w1)"
  shows "step_rollback a m =
           (Inl (reclassified (name (heap m a)) ROLLBACK e),
            m\<lparr>world := w1,
              trace := trace m @ [StepRollback (name (heap m a)), Called (name (heap m a)) ROLLBACK]\<rparr>)"
  using assms by (simp add: rb_defs)

lemma step_rollback_check_raises:
  assumes "rollback_action (heap m a) (initial (heap m a)) (world m) = (Inr u, w1)"
    and "check (heap m a) w1 = (Inl e, w2)"
  shows "step_rollback a m =
           (Inl (reclassified (name (heap m a)) CHECK_ROLLBACK e),
            m\<lparr>world := w2,
              trace := trace m @ [StepRollback (name (heap m a)), Called (name (heap m a)) ROLLBACK,
                                  Called (name (heap m a)) CHECK_ROLLBACK]\<rparr>)"
  using assms by (simp add: rb_defs)

lemma step_rollback_postcondition_fails:
  assumes "rollback_action (heap m a) (initial (heap m a)) (world m) = (Inr (), w1)"
    and "check (heap m a) w1 = (Inr final, w2)"
    and "final \<noteq> initial (heap m a)"
  shows "step_rollback a m =
           (Inl (RollbackPostconditionError (name (heap m a)) final (initial (heap m a))),
            m\<lparr>world := w2,
              trace := trace m @ [StepRollback (name (heap m a)), Called (name (heap m a)) ROLLBACK,
                                  Called (name (heap m a)) CHECK_ROLLBACK]\<rparr>)"
  using assms by (simp add: rb_defs)

lemma step_rollback_succeeds:
  assumes "rollback_action (heap m a) (initial (heap m a)) (world m) = (Inr (), w1)"
    and "check (heap m a) w1 = (Inr final, w2)"
    and "final = initial (heap m a)"
  shows "step_rollback a m =
           (Inr (),
            m\<lparr>world := w2,
              trace := trace m @ [StepRollback (name (heap m a)), Called (name (heap m a)) ROLLBACK,
                                  Called (name (heap m a)) CHECK_ROLLBACK]\<rparr>)"
  using assms by (simp add: rb_defs)

lemma step_rollback_verdict:
  assumes "rollback_action (heap m a) (initial (heap m a)) (world m) = (Inr (), w1)"
    and "check (heap m a) w1 = (Inr final, w2)"
  shows "fst (step_rollback a m) =
           (if final = initial (heap m a) then Inr ()
            else Inl (RollbackPostconditionError (name (heap m a)) final (initial (heap m a))))"
  using step_rollback_succeeds[OF assms] step_rollback_postcondition_fails[OF assms]
  by (cases "final = initial (heap m a)") simp_all

lemma attempts_append: "attempts (xs @ ys) = attempts xs @ attempts ys"
  by (induction xs rule: attempts.induct) simp_all

lemma rollbacks_append: "rollbacks (xs @ ys) = rollbacks xs @ rollbacks ys"
  by (induction xs rule: rollbacks.induct) simp_all

lemma reclassified_Exception: "is_Exception e \<Longrightarrow> reclassified n p e = ExecutionError n p e"
  by (simp add: reclassified_def)

lemma reclassified_other: "\<not> is_Exception e \<Longrightarrow> reclassified n p e = e"
  by (simp add: reclassified_def)

lemma caught_reclassified: "caught (reclassified n p e) = is_Exception e"
  by (cases e) (simp_all add: reclassified_def)

lemma appends_reclassified:
  "appends (Inl (reclassified n p e)) = (is_Exception e \<and> p = CHECK_FINAL)"
  by (cases e) (simp_all add: reclassified_def)

lemma step_execute_cases [case_names check_raises precondition_raises precondition_false
    action_raises final_check_raises postcondition_fails succeeds]:
  obtains
    e w1 where "check (heap m a) (world m) = (Inl e, w1)"
  | ini w1 e where "check (heap m a) (world m) = (Inr ini, w1)"
      and "precondition (heap m a) ini = Inl e"
  | ini w1 where "check (heap m a) (world m) = (Inr ini, w1)"
      and "precondition (heap m a) ini = Inr False"
  | ini w1 e w2 where "check (heap m a) (world m) = (Inr ini, w1)"
      and "precondition (heap m a) ini = Inr True"
      and "action (heap m a) ini w1 = (Inl e, w2)"
  | ini w1 u w2 e w3 where "check (heap m a) (world m) = (Inr ini, w1)"
      and "precondition (heap m a) ini = Inr True"
      and "action (heap m a) ini w1 = (Inr u, w2)"
      and "check (heap m a) w2 = (Inl e, w3)"
  | ini w1 u w2 final w3 where "check (heap m a) (world m) = (Inr ini, w1)"
      and "precondition (heap m a) ini = Inr True"
      and "action (heap m a) ini w1 = (Inr u, w2)"
      and "check (heap m a) w2 = (Inr final, w3)"
      and "final \<noteq> expected (heap m a)"
  | ini w1 u w2 w3 where "check (heap m a) (world m) = (Inr ini, w1)"
      and "precondition (heap m a) ini = Inr True"
      and "action (heap m a) ini w1 = (Inr u, w2)"
      and "check (heap m a) w2 = (Inr (expected (heap m a)), w3)"
proof (cases "check (heap m a) (world m)")
  case c1: (Pair x w1)
  show ?thesis
  proof (cases x)
    case (Inl e)
    with c1 that(1) show ?thesis by simp
  next
    case (Inr ini)
    note ini = this
    show ?thesis
    proof (cases "precondition (heap m a) ini")
      case (Inl e)
      with c1 ini that(2) show ?thesis by simp
    next
      case (Inr b)
      note b = this
      show ?thesis
      proof (cases b)
        case False
        with c1 ini b that(3) show ?thesis by simp
      next
        case True
        show ?thesis
        proof (cases "action (heap m a) ini w1")
          case c2: (Pair y w2)
          show ?thesis
          proof (cases y)
            case (Inl e)
            with c1 ini b True c2 that(4) show ?thesis by simp
          next
            case (Inr u)
            note u = this
            show ?thesis
            proof (cases "check (heap m a) w2")
              case c3: (Pair z w3)
              show ?thesis
              proof (cases z)
                case (Inl e)
                with c1 ini b True c2 u c3 that(5) show ?thesis by simp
              next
                case (Inr final)
                show ?thesis
                proof (cases "final = expected (heap m a)")
                  case True
                  with c1 ini b \<open>b\<close> c2 u c3 Inr that(7) show ?thesis by simp
                next
                  case False
                  with c1 ini b True c2 u c3 Inr that(6) show ?thesis by simp
                qed
              qed
            qed
          qed
        qed
      qed
    qed
  qed
qed

lemma same_code_refl: "same_code h h"
  by (simp add: same_code_def)

lemma same_code_trans: "same_code h h' \<Longrightarrow> same_code h' h'' \<Longrightarrow> same_code h h''"
  by (simp add: same_code_def)

lemma same_code_set_initial: "same_code h (h(a := (h a)\<lparr>initial := v\<rparr>))"
  by (simp add: same_code_def)

lemma same_code_name: "same_code h h' \<Longrightarrow> name (h' b) = name (h b)"
  by (simp add: same_code_def)

lemma same_code_check: "same_code h h' \<Longrightarrow> check (h' b) = check (h b)"
  by (simp add: same_code_def)

lemma step_execute_same_code: "same_code (heap m) (heap (snd (step_execute a m)))"
  by (cases rule: step_execute_cases[of m a])
     (simp_all add: step_execute_paths same_code_refl same_code_set_initial)

lemma step_execute_trace:
  "\<exists>evs. trace (snd (step_execute a m)) = trace m @ evs \<and>
     attempts evs = [name (heap m a)] \<and> rollbacks evs = [] \<and> ReleaseRollback \<notin> set evs"
  by (cases rule: step_execute_cases[of m a]) (simp_all add: step_execute_paths)

lemma step_execute_heap:
  "heap (snd (step_execute a m)) = heap m \<or>
   (\<exists>v. heap (snd (step_execute a m)) = (heap m)(a := (heap m a)\<lparr>initial := v\<rparr>))"
  by (cases rule: step_execute_cases[of m a]) (auto simp: step_execute_paths)

lemma step_execute_heap_other:
  "b \<noteq> a \<Longrightarrow> heap (snd (step_execute a m)) b = heap m b"
  using step_execute_heap[of a m] by auto

lemma step_execute_appends:
  assumes "appends (fst (step_execute a m))"
  shows "\<exists>ini w. check (heap m a) (world m) = (Inr ini, w) \<and>
           initial (heap (snd (step_execute a m)) a) = ini"
  using assms
  by (cases rule: step_execute_cases[of m a])
     (simp_all add: step_execute_paths appends_reclassified)

lemma run_steps_same_code: "same_code (heap m) (heap (run_steps as m))"
proof (induction as arbitrary: m)
  case Nil
  show ?case by (simp add: same_code_refl)
next
  case (Cons a as)
  show ?case
    using same_code_trans[OF step_execute_same_code[of m a] Cons.IH[of "snd (step_execute a m)"]]
    by simp
qed

lemma run_steps_trace:
  "\<exists>evs. trace (run_steps as m) = trace m @ evs \<and>
     attempts evs = map (\<lambda>a. name (heap m a)) as \<and> rollbacks evs = [] \<and>
     ReleaseRollback \<notin> set evs"
proof (induction as arbitrary: m)
  case Nil
  show ?case by simp
next
  case (Cons a as)
  obtain e1 where e1: "trace (snd (step_execute a m)) = trace m @ e1"
    "attempts e1 = [name (heap m a)]" "rollbacks e1 = []" "ReleaseRollback \<notin> set e1"
    using step_execute_trace[of a m] by blast
  obtain e2 where e2: "trace (run_steps as (snd (step_execute a m))) = trace (snd (step_execute a m)) @ e2"
    "attempts e2 = map (\<lambda>b. name (heap (snd (step_execute a m)) b)) as" "rollbacks e2 = []"
    "ReleaseRollback \<notin> set e2"
    using Cons.IH[of "snd (step_execute a m)"] by blast
  have names: "\<And>b. name (heap (snd (step_execute a m)) b) = name (heap m b)"
    using step_execute_same_code[of m a] by (rule same_code_name)
  show ?case
    apply (rule exI[of _ "e1 @ e2"])
    using e1 e2 names by (simp add: attempts_append rollbacks_append)
qed

section \<open>The loops of \<^verbatim>\<open>Release.execute\<close> and \<^verbatim>\<open>Release.rollback\<close>\<close>

lemma execute_loop_success:
  "fst (step_execute a m) = Inr () \<Longrightarrow>
   execute_loop (a # as) r m = execute_loop as (append_executed a r) (snd (step_execute a m))"
  by (cases "step_execute a m") (simp split: sum.splits)

lemma execute_loop_prefix:
  "steps_succeed pre m \<Longrightarrow>
   execute_loop (pre @ rest) r m =
     execute_loop rest (r\<lparr>executed_steps := executed_steps r @ pre\<rparr>) (run_steps pre m)"
proof (induction pre arbitrary: r m)
  case Nil
  show ?case by simp
next
  case (Cons a pre)
  from Cons.prems have ok: "fst (step_execute a m) = Inr ()"
    and rest: "steps_succeed pre (snd (step_execute a m))"
    by (simp_all add: step_succeeds_iff)
  show ?case
    using Cons.IH[OF rest, of "append_executed a r"] execute_loop_success[OF ok]
    by (simp add: append_executed_def)
qed

lemma explain_exceptions_executed_steps:
  "executed_steps (explain_exceptions r) = executed_steps r"
  by (simp add: explain_exceptions_def)


text \<open>What \<^verbatim>\<open>Release.execute\<close> does with an exception that one of its clauses catches.\<close>

lemma execute_loop_caught:
  assumes "step_execute a m = (Inl e, m2)" and "caught e"
  shows "execute_loop (a # as) r m =
     (let r1 = (if appends (Inl e) then append_executed a (record_exception e r)
                else record_exception e r);
          c = cascade (executed_steps r1) m2
      in (Inl (raised_after (fst c) e),
          (case fst c of None \<Rightarrow> explain_exceptions r1 | Some b \<Rightarrow> r1),
          snd c))"
  using assms
  by (cases e)
     (simp_all add: fail_with_def release_rollback_def cascade_def raised_after_def Let_def
        split: prod.splits option.splits)

lemma execute_loop_uncaught:
  "step_execute a m = (Inl e, m') \<Longrightarrow> \<not> caught e \<Longrightarrow>
   execute_loop (a # as) r m = (Inl e, r, m')"
  by (cases e) simp_all

lemma step_rollback_heap: "heap (snd (step_rollback a m)) = heap m"
  by (auto simp: rb_defs split: prod.splits sum.splits)

lemma step_rollback_trace:
  "\<exists>evs. trace (snd (step_rollback a m)) = trace m @ evs \<and>
     attempts evs = [] \<and> rollbacks evs = [name (heap m a)] \<and> ReleaseRollback \<notin> set evs"
  by (auto simp: rb_defs split: prod.splits sum.splits)

lemma rollback_loop_heap: "heap (snd (rollback_loop as m)) = heap m"
proof (induction as arbitrary: m)
  case Nil
  show ?case by simp
next
  case (Cons a as)
  show ?case
    using Cons.IH[of "snd (step_rollback a m)"] step_rollback_heap[of a m]
    by (cases "step_rollback a m") (simp split: sum.splits)
qed

lemma rollback_loop_attempts:
  "\<exists>evs. trace (snd (rollback_loop as m)) = trace m @ evs \<and> attempts evs = []"
proof (induction as arbitrary: m)
  case Nil
  show ?case by simp
next
  case (Cons a as)
  obtain e1 where e1: "trace (snd (step_rollback a m)) = trace m @ e1" "attempts e1 = []"
    using step_rollback_trace[of a m] by blast
  obtain e2 where e2: "trace (snd (rollback_loop as (snd (step_rollback a m)))) =
      trace (snd (step_rollback a m)) @ e2" "attempts e2 = []"
    using Cons.IH[of "snd (step_rollback a m)"] by blast
  show ?case
  proof (cases "step_rollback a m")
    case (Pair x m')
    show ?thesis
    proof (cases x)
      case (Inl e)
      with Pair e1 show ?thesis by simp
    next
      case (Inr u)
      with Pair e1 e2 show ?thesis by (simp add: attempts_append)
    qed
  qed
qed

lemma cascade_heap: "heap (snd (cascade as m)) = heap m"
  by (simp add: cascade_def rollback_loop_heap emit_def)

lemma cascade_attempts:
  "\<exists>evs. trace (snd (cascade as m)) = trace m @ evs \<and> attempts evs = []"
proof -
  obtain evs where "trace (snd (rollback_loop as (emit ReleaseRollback m))) =
      trace (emit ReleaseRollback m) @ evs" "attempts evs = []"
    using rollback_loop_attempts by blast
  then show ?thesis
    by (simp add: cascade_def emit_def attempts_append)
qed

lemma release_execute_prefix:
  "steps_succeed pre m \<Longrightarrow>
   release_execute (Release_init nm (pre @ rest)) m =
     execute_loop rest ((Release_init nm (pre @ rest))\<lparr>executed_steps := pre\<rparr>) (run_steps pre m)"
  using execute_loop_prefix[of pre m rest "Release_init nm (pre @ rest)"]
  by (simp add: release_execute_def Release_init_def)

lemma release_execute_failure:
  assumes "steps_succeed pre m"
  shows "release_execute (Release_init nm (pre @ a # post)) m =
     execute_loop (a # post) ((Release_init nm (pre @ a # post))\<lparr>executed_steps := pre\<rparr>)
       (run_steps pre m)"
  using release_execute_prefix[OF assms, of nm "a # post"] .

lemma new_events_append: "trace m' = trace m @ evs \<Longrightarrow> new_events m m' = evs"
  by (simp add: new_events_def)

lemma run_steps_quiet:
  "ReleaseRollback \<notin> set (new_events m (run_steps as m)) \<and>
   rollbacks (new_events m (run_steps as m)) = []"
proof -
  obtain evs where "trace (run_steps as m) = trace m @ evs" "rollbacks evs = []"
    "ReleaseRollback \<notin> set evs"
    using run_steps_trace[of as m] by blast
  then show ?thesis by (simp add: new_events_append)
qed

text \<open>A step that raises ends the run, with what it has appended and no further attempt.\<close>

lemma execute_loop_failure_trace:
  assumes "step_execute a m1 = (Inl e, m2)"
  shows "outcome (execute_loop (a # as) r m1) \<noteq> Inr () \<and>
    (\<exists>evs. trace (final_machine (execute_loop (a # as) r m1)) = trace m2 @ evs \<and>
       attempts evs = [])"
proof (cases "caught e")
  case True
  let ?r1 = "if appends (Inl e) then append_executed a (record_exception e r)
             else record_exception e r"
  obtain evs where "trace (snd (cascade (executed_steps ?r1) m2)) = trace m2 @ evs"
    "attempts evs = []"
    using cascade_attempts by blast
  then show ?thesis
    unfolding execute_loop_caught[OF assms True]
    by (simp add: outcome_def final_machine_def Let_def)
next
  case False
  show ?thesis
    unfolding execute_loop_uncaught[OF assms False]
    by (simp add: outcome_def final_machine_def)
qed

lemma execute_loop_failure_outcome:
  assumes "step_execute a m1 = (Inl e, m2)"
  shows "outcome (execute_loop (a # as) r m1) =
     Inl (if caught e
          then raised_after
                 (fst (cascade (executed_steps (final_release (execute_loop (a # as) r m1))) m2)) e
          else e)"
proof (cases "caught e")
  case True
  show ?thesis
    unfolding execute_loop_caught[OF assms True]
    by (simp add: True outcome_def final_release_def Let_def explain_exceptions_executed_steps
        split: option.splits)
next
  case False
  show ?thesis
    unfolding execute_loop_uncaught[OF assms False]
    by (simp add: False outcome_def)
qed

lemma execute_loop_failure_state:
  assumes "step_execute a m = (Inl e, m2)"
  shows "executed_steps (final_release (execute_loop (a # as) r m)) =
           (if appends (Inl e) then executed_steps r @ [a] else executed_steps r) \<and>
         heap (final_machine (execute_loop (a # as) r m)) = heap m2"
proof (cases "caught e")
  case True
  show ?thesis
    unfolding execute_loop_caught[OF assms True]
    by (simp add: final_release_def final_machine_def Let_def cascade_heap
        explain_exceptions_executed_steps record_exception_def append_executed_def
        split: option.splits)
next
  case False
  then have "\<not> appends (Inl e)" by (cases e) simp_all
  then show ?thesis
    unfolding execute_loop_uncaught[OF assms False]
    by (simp add: final_release_def final_machine_def)
qed

lemma execute_loop_heap_other:
  "b \<notin> set as \<Longrightarrow> heap (final_machine (execute_loop as r m)) b = heap m b"
proof (induction as arbitrary: r m)
  case Nil
  show ?case by (simp add: final_machine_def)
next
  case (Cons a as)
  from Cons.prems have ba: "b \<noteq> a" and bas: "b \<notin> set as" by auto
  obtain res m2 where S: "step_execute a m = (res, m2)" by (cases "step_execute a m")
  have h2: "heap m2 b = heap m b"
    using step_execute_heap_other[OF ba, of m] S by simp
  show ?case
  proof (cases res)
    case (Inr u)
    then have "execute_loop (a # as) r m = execute_loop as (append_executed a r) m2"
      using execute_loop_success[of a m as r] S by simp
    then show ?thesis using Cons.IH[OF bas, of "append_executed a r" m2] h2 by simp
  next
    case (Inl e)
    then show ?thesis
      using execute_loop_failure_state[of a m e m2 as r] S h2 by simp
  qed
qed

lemma execute_loop_executed_subset:
  "set (executed_steps (final_release (execute_loop as r m))) \<subseteq> set (executed_steps r) \<union> set as"
proof (induction as arbitrary: r m)
  case Nil
  show ?case by (simp add: final_release_def)
next
  case (Cons a as)
  obtain res m2 where S: "step_execute a m = (res, m2)" by (cases "step_execute a m")
  show ?case
  proof (cases res)
    case (Inr u)
    then have "execute_loop (a # as) r m = execute_loop as (append_executed a r) m2"
      using execute_loop_success[of a m as r] S by simp
    then show ?thesis
      using Cons.IH[of "append_executed a r" m2] by (auto simp: append_executed_def)
  next
    case (Inl e)
    then show ?thesis
      using execute_loop_failure_state[of a m e m2 as r] S by (auto split: if_splits)
  qed
qed

lemma execute_loop_stops_in_prefix:
  "\<not> steps_succeed pre m \<Longrightarrow>
   set (executed_steps (final_release (execute_loop (pre @ rest) r m))) \<subseteq>
     set (executed_steps r) \<union> set pre"
proof (induction pre arbitrary: r m)
  case Nil
  then show ?case by simp
next
  case (Cons a pre)
  obtain res m2 where S: "step_execute a m = (res, m2)" by (cases "step_execute a m")
  show ?case
  proof (cases res)
    case (Inr u)
    then have ok: "step_succeeds a m" using S by (simp add: step_succeeds_iff)
    with Cons.prems S have "\<not> steps_succeed pre m2" by simp
    moreover have "execute_loop ((a # pre) @ rest) r m =
        execute_loop (pre @ rest) (append_executed a r) m2"
      using execute_loop_success[of a m "pre @ rest" r] S Inr by simp
    ultimately show ?thesis
      using Cons.IH[of m2 "append_executed a r"] by (auto simp: append_executed_def)
  next
    case (Inl e)
    then show ?thesis
      using execute_loop_failure_state[of a m e m2 "pre @ rest" r] S
      by (auto split: if_splits)
  qed
qed

lemma executed_step_initial:
  assumes d: "distinct (pre @ a # post)"
    and mem: "a \<in> set (executed_steps (final_release
        (release_execute (Release_init nm (pre @ a # post)) m)))"
  shows "steps_succeed pre m \<and>
      (\<exists>ini w. check (heap m a) (world (run_steps pre m)) = (Inr ini, w) \<and>
         initial (heap (final_machine (release_execute (Release_init nm (pre @ a # post)) m)) a) =
           ini)"
proof -
  let ?ss = "pre @ a # post"
  let ?m1 = "run_steps pre m"
  let ?r = "(Release_init nm ?ss)\<lparr>executed_steps := pre\<rparr>"
  from d have apre: "a \<notin> set pre" and apost: "a \<notin> set post" by auto
  have ok: "steps_succeed pre m"
  proof (rule ccontr)
    assume "\<not> steps_succeed pre m"
    from execute_loop_stops_in_prefix[OF this, of "a # post" "Release_init nm ?ss"]
    have "set (executed_steps (final_release (release_execute (Release_init nm ?ss) m))) \<subseteq>
        set pre"
      by (simp add: release_execute_def Release_init_def)
    with mem apre show False by auto
  qed
  note R = release_execute_failure[OF ok, of nm a post]
  obtain res m2 where S: "step_execute a ?m1 = (res, m2)" by (cases "step_execute a ?m1")
  have both: "appends res \<and>
      heap (final_machine (execute_loop (a # post) ?r ?m1)) a = heap m2 a"
  proof (cases res)
    case (Inr u)
    then have E: "execute_loop (a # post) ?r ?m1 = execute_loop post (append_executed a ?r) m2"
      using execute_loop_success[of a ?m1 post ?r] S by simp
    show ?thesis
      using execute_loop_heap_other[OF apost, of "append_executed a ?r" m2] Inr
      by (simp only: E appends.simps simp_thms)
  next
    case (Inl e)
    note F = execute_loop_failure_state[of a ?m1 e m2 post ?r]
    have "appends (Inl e)"
    proof (rule ccontr)
      assume "\<not> appends (Inl e)"
      then have "executed_steps (final_release (execute_loop (a # post) ?r ?m1)) = pre"
        using F S Inl by (simp add: Release_init_def)
      with mem apre show False by (simp only: R)
    qed
    then show ?thesis using F S Inl by simp
  qed
  obtain ini w where c: "check (heap ?m1 a) (world ?m1) = (Inr ini, w)"
    and i: "initial (heap m2 a) = ini"
    using step_execute_appends[of a ?m1] both S by auto
  have "check (heap ?m1 a) = check (heap m a)"
    using run_steps_same_code[of m pre] by (rule same_code_check)
  with c i both show ?thesis using ok by (simp only: R) auto
qed

text \<open>Unfolding the model on a concrete run.\<close>

lemma resolves_numeral:
  "resolves (numeral k) fs p =
     (case fs p of None \<Rightarrow> False | Some File \<Rightarrow> True
      | Some (Link t) \<Rightarrow> resolves (pred_numeral k) fs t)"
  by (simp add: numeral_eq_Suc)

lemmas fs_defs = Symlink_def Unlink_def check_link_def os_symlink_def os_remove_def
  os_path_exists_def resolves_numeral three_versions_def

lemmas eval_defs = release_execute_def Release_init_def test_machine_def machine_init_def
  Step_init_def
  step_execute_def step_rollback_def check_initial_def check_final_def check_rollback_def
  wrapped_action_def wrapped_rollback_action_def wrap_def emit_def set_initial_def Let_def
  fail_with_def release_rollback_def explain_exceptions_def record_exception_def
  append_executed_def outcome_def final_release_def final_machine_def new_events_def
  step_succeeds_def cascade_def raised_after_def

section \<open>The claims\<close>

text \<open>
  C7. \<^verbatim>\<open>Release.execute\<close> attempts the steps in the order in which they were supplied: when
  all the steps succeed, the steps whose \<^verbatim>\<open>execute\<close> the run enters are the supplied ones,
  in their order; when the steps \<open>pre\<close> succeed and the next step \<open>a\<close> fails with any
  exception \<open>e\<close> (a Precondition, Postcondition or Execution error among them), the run
  ends with an exception and has entered the \<^verbatim>\<open>execute\<close> of the steps \<open>pre\<close> and of \<open>a\<close>, in
  that order, and of no step after \<open>a\<close>. The exception is \<open>e\<close>, unless \<open>e\<close> is caught and the
  rollback is left by an exception that \<^verbatim>\<open>except Exception\<close> does not catch, which is then
  raised instead.
\<close>

theorem release_execute_order:
  assumes "steps_succeed pre m"
  shows "(let run = release_execute (Release_init nm pre) m in
            outcome run = Inr () \<and>
            attempts (new_events m (final_machine run)) = map (\<lambda>b. name (heap m b)) pre) \<and>
         (\<forall>a post e. fst (step_execute a (run_steps pre m)) = Inl e \<longrightarrow>
            (let run = release_execute (Release_init nm (pre @ a # post)) m in
               outcome run =
                 Inl (if caught e
                      then raised_after
                             (fst (cascade (executed_steps (final_release run))
                                (snd (step_execute a (run_steps pre m))))) e
                      else e) \<and>
               attempts (new_events m (final_machine run)) = map (\<lambda>b. name (heap m b)) (pre @ [a])))"
proof -
  obtain evs where evs: "trace (run_steps pre m) = trace m @ evs"
    "attempts evs = map (\<lambda>b. name (heap m b)) pre"
    using run_steps_trace[of pre m] by blast
  have A: "release_execute (Release_init nm pre) m =
      (Inr (), (Release_init nm pre)\<lparr>executed_steps := pre\<rparr>, run_steps pre m)"
    using release_execute_prefix[OF assms, of nm "[]"] by simp
  have part1: "let run = release_execute (Release_init nm pre) m in
            outcome run = Inr () \<and>
            attempts (new_events m (final_machine run)) = map (\<lambda>b. name (heap m b)) pre"
    using evs by (simp add: A outcome_def final_machine_def new_events_append)
  have part2: "let run = release_execute (Release_init nm (pre @ a # post)) m in
               outcome run =
                 Inl (if caught e
                      then raised_after
                             (fst (cascade (executed_steps (final_release run))
                                (snd (step_execute a (run_steps pre m))))) e
                      else e) \<and>
               attempts (new_events m (final_machine run)) = map (\<lambda>b. name (heap m b)) (pre @ [a])"
    if f: "fst (step_execute a (run_steps pre m)) = Inl e" for a post e
  proof -
    let ?m1 = "run_steps pre m"
    let ?r = "(Release_init nm (pre @ a # post))\<lparr>executed_steps := pre\<rparr>"
    obtain m2 where m2: "step_execute a ?m1 = (Inl e, m2)"
      using f by (cases "step_execute a ?m1") simp
    obtain e1 where e1: "trace m2 = trace ?m1 @ e1" "attempts e1 = [name (heap ?m1 a)]"
      using step_execute_trace[of a ?m1] m2 by auto
    have nm: "name (heap ?m1 a) = name (heap m a)"
      using run_steps_same_code[of m pre] by (rule same_code_name)
    obtain e2 where e2:
      "trace (final_machine (execute_loop (a # post) ?r ?m1)) = trace m2 @ e2" "attempts e2 = []"
      using execute_loop_failure_trace[OF m2, of post ?r] by blast
    have "trace (final_machine (execute_loop (a # post) ?r ?m1)) = trace m @ (evs @ e1 @ e2)"
      using evs e1 e2 by simp
    then have "new_events m (final_machine (execute_loop (a # post) ?r ?m1)) = evs @ e1 @ e2"
      by (rule new_events_append)
    then show ?thesis
      using execute_loop_failure_outcome[OF m2, of post ?r] evs(2) e1(2) e2(2) nm
      unfolding Let_def release_execute_failure[OF assms, of nm a post]
      by (simp add: attempts_append m2 del: execute_loop.simps)
  qed
  show ?thesis using part1 part2 by blast
qed

theorem release_execute_order_witness:
  "steps_succeed [0] (test_machine [success, failure_action, success]) \<and>
   fst (step_execute 1 (run_steps [0] (test_machine [success, failure_action, success]))) =
     Inl (ExecutionError ''failure_action'' EXECUTE (Exception ''action'')) \<and>
   outcome (release_execute (Release_init ''test'' [0])
     (test_machine [success, failure_action, success])) = Inr () \<and>
   attempts (new_events (test_machine [success, failure_action, success])
     (final_machine (release_execute (Release_init ''test'' [0])
        (test_machine [success, failure_action, success])))) = [''success''] \<and>
   outcome (release_execute (Release_init ''test'' [0, 1, 2])
     (test_machine [success, failure_action, success])) =
     Inl (ExecutionError ''failure_action'' EXECUTE (Exception ''action'')) \<and>
   attempts (new_events (test_machine [success, failure_action, success])
     (final_machine (release_execute (Release_init ''test'' [0, 1, 2])
        (test_machine [success, failure_action, success])))) = [''success'', ''failure_action'']"
proof -
  let ?M = "test_machine [success, failure_action, success]"
  let ?run = "release_execute (Release_init ''test'' [0, 1, 2]) ?M"
  have h: "steps_succeed [0] ?M"
    by (simp add: eval_defs success_def)
  have f: "fst (step_execute 1 (run_steps [0] ?M)) =
      Inl (ExecutionError ''failure_action'' EXECUTE (Exception ''action''))"
    by (simp add: eval_defs success_def failure_action_def)
  note T = release_execute_order[OF h, of "''test''"]
  have names: "map (\<lambda>b. name (heap ?M b)) [0] = [''success'']"
    "map (\<lambda>b. name (heap ?M b)) ([0] @ [1]) = [''success'', ''failure_action'']"
    by (simp_all add: test_machine_def machine_init_def success_def failure_action_def
        Step_init_def)
  have c1: "outcome (release_execute (Release_init ''test'' [0]) ?M) = Inr () \<and>
      attempts (new_events ?M (final_machine (release_execute (Release_init ''test'' [0]) ?M))) =
        [''success'']"
    using T[THEN conjunct1] names(1) by (simp only: Let_def)
  have quiet: "raised_after (fst (cascade (executed_steps (final_release ?run))
      (snd (step_execute 1 (run_steps [0] ?M)))))
      (ExecutionError ''failure_action'' EXECUTE (Exception ''action'')) =
      ExecutionError ''failure_action'' EXECUTE (Exception ''action'')"
    by (simp add: eval_defs success_def failure_action_def)
  have c2: "outcome ?run =
        Inl (ExecutionError ''failure_action'' EXECUTE (Exception ''action'')) \<and>
      attempts (new_events ?M (final_machine ?run)) = [''success'', ''failure_action'']"
    using T[THEN conjunct2, rule_format, OF f, of "[2]"] names(2) quiet
    by (simp only: Let_def append.simps caught.simps if_True)
  show ?thesis using h f c1 c2 by blast
qed

text \<open>
  C8. When each of the \<open>N\<close> steps of a release succeeds (its check returns, its precondition
  holds, its action returns and its check then returns the expected state),
  \<^verbatim>\<open>Release.execute\<close> returns without an error, \<^verbatim>\<open>executed_steps\<close> holds the \<open>N\<close> steps, no
  exception is recorded, and neither \<^verbatim>\<open>Release.rollback\<close> nor the rollback of a step is
  entered.
\<close>

theorem release_execute_all_succeed:
  assumes "steps_succeed ss m"
  shows "let run = release_execute (Release_init nm ss) m in
     outcome run = Inr () \<and>
     executed_steps (final_release run) = ss \<and>
     length (executed_steps (final_release run)) = length ss \<and>
     exceptions (final_release run) = [] \<and>
     ReleaseRollback \<notin> set (new_events m (final_machine run)) \<and>
     rollbacks (new_events m (final_machine run)) = []"
proof -
  have "release_execute (Release_init nm ss) m =
      (Inr (), (Release_init nm ss)\<lparr>executed_steps := ss\<rparr>, run_steps ss m)"
    using release_execute_prefix[OF assms, of nm "[]"] by simp
  then show ?thesis
    using run_steps_quiet[of m ss]
    by (simp add: outcome_def final_release_def final_machine_def Release_init_def)
qed

theorem release_execute_all_succeed_witness:
  "steps_succeed [0, 1] (test_machine [success, success]) \<and>
   outcome (release_execute (Release_init ''test'' [0, 1]) (test_machine [success, success])) =
     Inr () \<and>
   length (executed_steps (final_release
     (release_execute (Release_init ''test'' [0, 1]) (test_machine [success, success])))) = 2 \<and>
   exceptions (final_release
     (release_execute (Release_init ''test'' [0, 1]) (test_machine [success, success]))) = [] \<and>
   ReleaseRollback \<notin> set (new_events (test_machine [success, success]) (final_machine
     (release_execute (Release_init ''test'' [0, 1]) (test_machine [success, success]))))"
proof -
  have h: "steps_succeed [0, 1] (test_machine [success, success])"
    by (simp add: eval_defs success_def)
  show ?thesis
    using h release_execute_all_succeed[OF h, of "''test''"] by (simp add: Let_def)
qed

text \<open>
  C5. When the steps \<open>pre\<close> of a release have succeeded and the check of the next step \<open>a\<close>
  returns a state \<open>ini\<close> of which its precondition is false, \<^verbatim>\<open>Step.execute\<close> raises the
  Precondition error with the step's name and \<open>ini\<close>, having invoked the check once and
  never the action, and \<^verbatim>\<open>Release.execute\<close> leaves \<^verbatim>\<open>executed_steps\<close> holding the steps \<open>pre\<close>
  only. It raises that error after the rollback of the steps \<open>pre\<close>, or what has left the
  rollback uncaught.
\<close>

theorem precondition_failure:
  assumes "steps_succeed pre m"
    and "check (heap (run_steps pre m) a) (world (run_steps pre m)) = (Inr ini, w1)"
    and "precondition (heap (run_steps pre m) a) ini = Inr False"
  shows "let m1 = run_steps pre m;
             n = name (heap m1 a);
             step = step_execute a m1;
             run = release_execute (Release_init nm (pre @ a # post)) m in
     fst step = Inl (PreconditionError n ini) \<and>
     new_events m1 (snd step) = [StepExecute n, Called n CHECK_INITIAL] \<and>
     Called n EXECUTE \<notin> set (new_events m1 (snd step)) \<and>
     outcome run = Inl (raised_after (fst (cascade pre (snd step))) (PreconditionError n ini)) \<and>
     executed_steps (final_release run) = pre"
proof -
  let ?m1 = "run_steps pre m"
  note S = step_execute_precondition_false[OF assms(2,3)]
  have c: "caught (PreconditionError (name (heap ?m1 a)) ini)" by simp
  note R = release_execute_failure[OF assms(1), of nm a post]
  show ?thesis
    unfolding Let_def R execute_loop_caught[OF S c]
    by (simp add: S new_events_def outcome_def final_release_def
        explain_exceptions_executed_steps record_exception_def Release_init_def
        split: option.splits)
qed

theorem precondition_failure_witness:
  "steps_succeed [0] (test_machine [success, failure_precondition, success]) \<and>
   check (heap (run_steps [0] (test_machine [success, failure_precondition, success])) 1)
     (world (run_steps [0] (test_machine [success, failure_precondition, success]))) =
     (Inr (Some []), 0) \<and>
   precondition (heap (run_steps [0] (test_machine [success, failure_precondition, success])) 1)
     (Some []) = Inr False \<and>
   fst (step_execute 1 (run_steps [0] (test_machine [success, failure_precondition, success]))) =
     Inl (PreconditionError ''failure_precondition'' (Some [])) \<and>
   outcome (release_execute (Release_init ''test'' [0, 1, 2])
     (test_machine [success, failure_precondition, success])) =
     Inl (PreconditionError ''failure_precondition'' (Some [])) \<and>
   executed_steps (final_release (release_execute (Release_init ''test'' [0, 1, 2])
     (test_machine [success, failure_precondition, success]))) = [0]"
proof -
  let ?M = "test_machine [success, failure_precondition, success]"
  have h1: "steps_succeed [0] ?M"
    by (simp add: eval_defs success_def)
  have h2: "check (heap (run_steps [0] ?M) 1) (world (run_steps [0] ?M)) = (Inr (Some []), 0)"
    by (simp add: eval_defs success_def failure_precondition_def)
  have h3: "precondition (heap (run_steps [0] ?M) 1) (Some []) = Inr False"
    by (simp add: eval_defs success_def failure_precondition_def)
  have n: "name (heap (run_steps [0] ?M) 1) = ''failure_precondition''"
    by (simp add: eval_defs success_def failure_precondition_def)
  have q: "fst (cascade [0] (snd (step_execute 1 (run_steps [0] ?M)))) = None"
    by (simp add: eval_defs success_def failure_precondition_def)
  note T = precondition_failure[OF h1 h2 h3, of "''test''" "[2]", unfolded Let_def append.simps]
  have o: "outcome (release_execute (Release_init ''test'' [0, 1, 2]) ?M) =
      Inl (PreconditionError ''failure_precondition'' (Some []))"
    using T n q by (simp add: raised_after_def)
  show ?thesis
    using T h1 h2 h3 n o by simp
qed




text \<open>
  C1, on the code. \<^verbatim>\<open>Release.rollback\<close> iterates \<^verbatim>\<open>executed_steps\<close> from its first element,
  so the step committed first is rolled back first. In the release of two succeeding steps
  \<open>a\<close> and \<open>b\<close> and a step whose precondition fails, the rollbacks entered are those of
  \<open>a\<close>, then \<open>b\<close>. In the release that removes the link \<open>current\<close> to \<open>v1\<close>, links it to \<open>v2\<close>
  and then fails the precondition of linking it to \<open>v3\<close>, the rollback of the removal comes
  first and fails, as the link to \<open>v2\<close> is still there; the rollback of the link to \<open>v2\<close> is
  never entered, and the link to \<open>v2\<close> stays.
\<close>

theorem rollback_runs_in_commitment_order:
  "rollbacks (trace (final_machine (release_execute (Release_init ''test'' [0, 1, 2])
     (test_machine [succeeding ''a'', succeeding ''b'', failure_precondition])))) =
     [''a'', ''b''] \<and>
   outcome (release_execute (Release_init ''release'' [0, 1, 2])
     (machine_init (Unlink ''current'')
        [Unlink ''current'', Symlink ''v2'' ''current'', Symlink ''v3'' ''current'']
        three_versions)) =
     Inl (PreconditionError ''link current to v3'' (Some (True, Some ''v2''))) \<and>
   executed_steps (final_release (release_execute (Release_init ''release'' [0, 1, 2])
     (machine_init (Unlink ''current'')
        [Unlink ''current'', Symlink ''v2'' ''current'', Symlink ''v3'' ''current'']
        three_versions))) = [0, 1] \<and>
   rollbacks (trace (final_machine (release_execute (Release_init ''release'' [0, 1, 2])
     (machine_init (Unlink ''current'')
        [Unlink ''current'', Symlink ''v2'' ''current'', Symlink ''v3'' ''current'']
        three_versions)))) = [''unlink current''] \<and>
   world (final_machine (release_execute (Release_init ''release'' [0, 1, 2])
     (machine_init (Unlink ''current'')
        [Unlink ''current'', Symlink ''v2'' ''current'', Symlink ''v3'' ''current'']
        three_versions))) ''current'' = Some (Link ''v2'')"
  by (simp add: eval_defs fs_defs succeeding_def failure_precondition_def)

text \<open>
  C2, on the code. In the release of one step whose postcondition fails and whose rollback
  action then raises, \<^verbatim>\<open>Release.execute\<close> raises the Postcondition error, the rollback of
  the step raises an Execution error of phase \<open>ROLLBACK\<close>, and the recorded exceptions are
  the Postcondition error alone: the \<^verbatim>\<open>except Exception: break\<close> of \<^verbatim>\<open>Release.rollback\<close>
  drops the Execution error.
\<close>

theorem rollback_failure_is_not_recorded:
  "outcome (release_execute (Release_init ''test'' [0])
     (test_machine [failure_postcondition_rollback])) =
     Inl (PostconditionError ''failure_postcondition_rollback'' (Some []) (Some [(''a'', 1)])) \<and>
   fst (step_rollback 0 (emit ReleaseRollback
     (snd (step_execute 0 (test_machine [failure_postcondition_rollback]))))) =
     Inl (ExecutionError ''failure_postcondition_rollback'' ROLLBACK (Exception ''rollback'')) \<and>
   exceptions (final_release (release_execute (Release_init ''test'' [0])
     (test_machine [failure_postcondition_rollback]))) =
     [PostconditionError ''failure_postcondition_rollback'' (Some []) (Some [(''a'', 1)])]"
  by (simp add: eval_defs failure_postcondition_rollback_def)

text \<open>
  C3. When the steps \<open>pre\<close> of a release have succeeded and \<^verbatim>\<open>Step.execute\<close> of the next step
  \<open>a\<close> raises an Execution error, \<^verbatim>\<open>executed_steps\<close> holds \<open>a\<close> after the steps \<open>pre\<close> if the
  phase of the error is \<open>CHECK_FINAL\<close>, and the steps \<open>pre\<close> only otherwise; \<^verbatim>\<open>Release.execute\<close>
  raises that error after the rollback of these steps, or what has left the rollback
  uncaught. In particular, when the action of the first step raises \<open>e\<close>,
  \<^verbatim>\<open>executed_steps\<close> has length 0, the only step attempted is the first, and
  \<^verbatim>\<open>Release.execute\<close> raises what the wrapped action raises: for an instance \<open>e\<close> of
  \<^verbatim>\<open>Exception\<close>, the Execution error of phase \<open>EXECUTE\<close> for that step.
\<close>

theorem execution_error_appends_iff_check_final:
  "(steps_succeed pre m \<and>
    fst (step_execute a (run_steps pre m)) = Inl (ExecutionError n p t) \<longrightarrow>
      (let run = release_execute (Release_init nm (pre @ a # post)) m in
         executed_steps (final_release run) = (if p = CHECK_FINAL then pre @ [a] else pre) \<and>
         outcome run =
           Inl (raised_after
                  (fst (cascade (if p = CHECK_FINAL then pre @ [a] else pre)
                     (snd (step_execute a (run_steps pre m)))))
                  (ExecutionError n p t)))) \<and>
   (check (heap m a) (world m) = (Inr ini, w1) \<and>
    precondition (heap m a) ini = Inr True \<and>
    action (heap m a) ini w1 = (Inl e, w2) \<longrightarrow>
      (let run = release_execute (Release_init nm (a # post)) m in
         outcome run = Inl (reclassified (name (heap m a)) EXECUTE e) \<and>
         (is_Exception e \<longrightarrow>
            outcome run = Inl (ExecutionError (name (heap m a)) EXECUTE e)) \<and>
         length (executed_steps (final_release run)) = 0 \<and>
         attempts (new_events m (final_machine run)) = [name (heap m a)]))"
proof -
  have part1: "let run = release_execute (Release_init nm (pre @ a # post)) m in
         executed_steps (final_release run) = (if p = CHECK_FINAL then pre @ [a] else pre) \<and>
         outcome run =
           Inl (raised_after
                  (fst (cascade (if p = CHECK_FINAL then pre @ [a] else pre)
                     (snd (step_execute a (run_steps pre m)))))
                  (ExecutionError n p t))"
    if ok: "steps_succeed pre m"
      and f: "fst (step_execute a (run_steps pre m)) = Inl (ExecutionError n p t)"
  proof -
    obtain m2 where S: "step_execute a (run_steps pre m) = (Inl (ExecutionError n p t), m2)"
      using f by (cases "step_execute a (run_steps pre m)") simp
    have c: "caught (ExecutionError n p t)" by simp
    show ?thesis
      unfolding Let_def release_execute_failure[OF ok] execute_loop_caught[OF S c]
      by (simp add: S outcome_def final_release_def explain_exceptions_executed_steps
          record_exception_def append_executed_def Release_init_def split: option.splits)
  qed
  have part2: "let run = release_execute (Release_init nm (a # post)) m in
         outcome run = Inl (reclassified (name (heap m a)) EXECUTE e) \<and>
         (is_Exception e \<longrightarrow>
            outcome run = Inl (ExecutionError (name (heap m a)) EXECUTE e)) \<and>
         length (executed_steps (final_release run)) = 0 \<and>
         attempts (new_events m (final_machine run)) = [name (heap m a)]"
    if c: "check (heap m a) (world m) = (Inr ini, w1)"
      and p: "precondition (heap m a) ini = Inr True"
      and x: "action (heap m a) ini w1 = (Inl e, w2)"
  proof -
    note S = step_execute_action_raises[OF c p x]
    have R: "release_execute (Release_init nm (a # post)) m =
        execute_loop (a # post) ((Release_init nm (a # post))\<lparr>executed_steps := []\<rparr>) m"
      using release_execute_failure[of "[]" m nm a post] by (simp del: execute_loop.simps)
    show ?thesis
    proof (cases "is_Exception e")
      case True
      then have k: "caught (reclassified (name (heap m a)) EXECUTE e)"
        by (simp add: caught_reclassified)
      show ?thesis
        unfolding Let_def R execute_loop_caught[OF S k]
        using True
        by (simp add: outcome_def final_release_def final_machine_def new_events_def emit_def
            cascade_def raised_after_def record_exception_def Release_init_def
            explain_exceptions_executed_steps appends_reclassified reclassified_Exception)
    next
      case False
      then have k: "\<not> caught (reclassified (name (heap m a)) EXECUTE e)"
        by (simp add: caught_reclassified)
      show ?thesis
        unfolding Let_def R execute_loop_uncaught[OF S k]
        using False
        by (simp add: outcome_def final_release_def final_machine_def new_events_def
            Release_init_def)
    qed
  qed
  show ?thesis using part1 part2 by blast
qed

theorem execution_error_appends_iff_check_final_witness:
  "(steps_succeed [0] (test_machine [success, failure_check_final, success]) \<and>
    fst (step_execute 1 (run_steps [0] (test_machine [success, failure_check_final, success]))) =
      Inl (ExecutionError ''failure_check_final'' CHECK_FINAL (Exception ''check'')) \<and>
    outcome (release_execute (Release_init ''test'' [0, 1, 2])
      (test_machine [success, failure_check_final, success])) =
      Inl (ExecutionError ''failure_check_final'' CHECK_FINAL (Exception ''check'')) \<and>
    executed_steps (final_release (release_execute (Release_init ''test'' [0, 1, 2])
      (test_machine [success, failure_check_final, success]))) = [0, 1]) \<and>
   (steps_succeed [0] (test_machine [success, failure_check, success]) \<and>
    fst (step_execute 1 (run_steps [0] (test_machine [success, failure_check, success]))) =
      Inl (ExecutionError ''failure_check'' CHECK_INITIAL (Exception ''check'')) \<and>
    executed_steps (final_release (release_execute (Release_init ''test'' [0, 1, 2])
      (test_machine [success, failure_check, success]))) = [0]) \<and>
   (check (heap (test_machine [failure_action, success]) 0)
      (world (test_machine [failure_action, success])) = (Inr (Some []), 0) \<and>
    precondition (heap (test_machine [failure_action, success]) 0) (Some []) = Inr True \<and>
    action (heap (test_machine [failure_action, success]) 0) (Some []) 0 =
      (Inl (Exception ''action''), 0) \<and>
    is_Exception (Exception ''action'' :: dict exc) \<and>
    outcome (release_execute (Release_init ''test'' [0, 1])
      (test_machine [failure_action, success])) =
      Inl (ExecutionError ''failure_action'' EXECUTE (Exception ''action'')) \<and>
    length (executed_steps (final_release (release_execute (Release_init ''test'' [0, 1])
      (test_machine [failure_action, success])))) = 0 \<and>
    attempts (new_events (test_machine [failure_action, success])
      (final_machine (release_execute (Release_init ''test'' [0, 1])
         (test_machine [failure_action, success])))) = [''failure_action''])"
proof -
  let ?A = "test_machine [success, failure_check_final, success]"
  let ?B = "test_machine [success, failure_check, success]"
  let ?C = "test_machine [failure_action, success]"
  have a1: "steps_succeed [0] ?A"
    by (simp add: eval_defs success_def)
  have a2: "fst (step_execute 1 (run_steps [0] ?A)) =
      Inl (ExecutionError ''failure_check_final'' CHECK_FINAL (Exception ''check''))"
    by (simp add: eval_defs success_def failure_check_final_def)
  have aq: "fst (cascade ([0] @ [1]) (snd (step_execute 1 (run_steps [0] ?A)))) = None"
    by (simp add: eval_defs success_def failure_check_final_def)
  have a3: "outcome (release_execute (Release_init ''test'' [0, 1, 2]) ?A) =
        Inl (ExecutionError ''failure_check_final'' CHECK_FINAL (Exception ''check'')) \<and>
      executed_steps (final_release (release_execute (Release_init ''test'' [0, 1, 2]) ?A)) =
        [0, 1]"
    using execution_error_appends_iff_check_final[where pre="[0]" and a=1 and post="[2]"
        and nm="''test''", THEN conjunct1, THEN mp, OF conjI[OF a1 a2]] aq
    by (simp add: Let_def raised_after_def)
  have b1: "steps_succeed [0] ?B"
    by (simp add: eval_defs success_def)
  have b2: "fst (step_execute 1 (run_steps [0] ?B)) =
      Inl (ExecutionError ''failure_check'' CHECK_INITIAL (Exception ''check''))"
    by (simp add: eval_defs success_def failure_check_def)
  have b3: "executed_steps (final_release (release_execute (Release_init ''test'' [0, 1, 2]) ?B)) =
        [0]"
    using execution_error_appends_iff_check_final[where pre="[0]" and a=1 and post="[2]"
        and nm="''test''", THEN conjunct1, THEN mp, OF conjI[OF b1 b2]]
    by (simp add: Let_def)
  have c1: "check (heap ?C 0) (world ?C) = (Inr (Some []), 0)"
    and c2: "precondition (heap ?C 0) (Some []) = Inr True"
    and c3: "action (heap ?C 0) (Some []) 0 = (Inl (Exception ''action''), 0)"
    and n: "name (heap ?C 0) = ''failure_action''"
    by (simp_all add: eval_defs failure_action_def)
  have ci: "is_Exception (Exception ''action'' :: dict exc)"
    by simp
  have c4: "outcome (release_execute (Release_init ''test'' [0, 1]) ?C) =
        Inl (ExecutionError ''failure_action'' EXECUTE (Exception ''action'')) \<and>
      length (executed_steps (final_release (release_execute (Release_init ''test'' [0, 1]) ?C))) = 0 \<and>
      attempts (new_events ?C (final_machine (release_execute (Release_init ''test'' [0, 1]) ?C))) =
        [''failure_action'']"
    using execution_error_appends_iff_check_final[where a=0 and post="[1]"
        and nm="''test''", THEN conjunct2, THEN mp, OF conjI[OF c1 conjI[OF c2 c3]]] n ci
    by (simp add: Let_def reclassified_def)
  show ?thesis using a1 a2 a3 b1 b2 b3 c1 c2 c3 ci c4 by blast
qed

text \<open>
  C4, as the code has it. A step whose action calls \<^verbatim>\<open>sys.exit\<close>: \<^verbatim>\<open>SystemExit\<close> is no
  instance of \<^verbatim>\<open>Exception\<close>, so the \<^verbatim>\<open>except Exception\<close> clause of \<^verbatim>\<open>Step.wrap\<close> does not
  catch it. \<^verbatim>\<open>Step.execute\<close> raises it as it is, not as an Execution error, and
  \<^verbatim>\<open>Release.execute\<close> raises it with nothing recorded and no rollback.
\<close>

theorem wrap_passes_system_exit_counterexample:
  "action (heap (test_machine [exiting_action]) 0) (Some []) 0 =
     (Inl (BaseException ''SystemExit''), 0) \<and>
   fst (wrap exiting_action EXECUTE (action exiting_action (Some []))
     (test_machine [exiting_action])) = Inl (BaseException ''SystemExit'') \<and>
   fst (step_execute 0 (test_machine [exiting_action])) = Inl (BaseException ''SystemExit'') \<and>
   outcome (release_execute (Release_init ''test'' [0]) (test_machine [exiting_action])) =
     Inl (BaseException ''SystemExit'') \<and>
   exceptions (final_release
     (release_execute (Release_init ''test'' [0]) (test_machine [exiting_action]))) = [] \<and>
   ReleaseRollback \<notin> set (trace (final_machine
     (release_execute (Release_init ''test'' [0]) (test_machine [exiting_action]))))"
  by (simp add: eval_defs exiting_action_def)

text \<open>
  C4, amended. Whatever instance \<open>e\<close> of \<^verbatim>\<open>Exception\<close> a collaborator raises, \<^verbatim>\<open>Step.wrap\<close>
  turns it into the Execution error with the step's name, the phase given to the wrapper
  and the trace of \<open>e\<close>; so at each of the five call sites the phase of the error is that
  of the site: \<open>CHECK_INITIAL\<close>, \<open>EXECUTE\<close> and \<open>CHECK_FINAL\<close> in \<^verbatim>\<open>Step.execute\<close>, \<open>ROLLBACK\<close> and
  \<open>CHECK_ROLLBACK\<close> in \<^verbatim>\<open>Step.rollback\<close>. The Precondition and Postcondition errors that
  \<^verbatim>\<open>Step.execute\<close> raises itself come out as they are, not as Execution errors.
\<close>

theorem wrap_reclassifies:
  "(act (world m) = (Inl e, w) \<and> is_Exception e \<longrightarrow>
      fst (wrap s p act m) = Inl (ExecutionError (name s) p e)) \<and>
   (check (heap m a) (world m) = (Inl e, w1) \<and> is_Exception e \<longrightarrow>
      fst (step_execute a m) = Inl (ExecutionError (name (heap m a)) CHECK_INITIAL e)) \<and>
   (check (heap m a) (world m) = (Inr ini, w1) \<and>
    precondition (heap m a) ini = Inr True \<and>
    action (heap m a) ini w1 = (Inl e, w2) \<and> is_Exception e \<longrightarrow>
      fst (step_execute a m) = Inl (ExecutionError (name (heap m a)) EXECUTE e)) \<and>
   (check (heap m a) (world m) = (Inr ini, w1) \<and>
    precondition (heap m a) ini = Inr True \<and>
    action (heap m a) ini w1 = (Inr (), w2) \<and>
    check (heap m a) w2 = (Inl e, w3) \<and> is_Exception e \<longrightarrow>
      fst (step_execute a m) = Inl (ExecutionError (name (heap m a)) CHECK_FINAL e)) \<and>
   (rollback_action (heap m a) (initial (heap m a)) (world m) = (Inl e, w1) \<and>
    is_Exception e \<longrightarrow>
      fst (step_rollback a m) = Inl (ExecutionError (name (heap m a)) ROLLBACK e)) \<and>
   (rollback_action (heap m a) (initial (heap m a)) (world m) = (Inr (), w1) \<and>
    check (heap m a) w1 = (Inl e, w2) \<and> is_Exception e \<longrightarrow>
      fst (step_rollback a m) = Inl (ExecutionError (name (heap m a)) CHECK_ROLLBACK e)) \<and>
   (check (heap m a) (world m) = (Inr ini, w1) \<and>
    precondition (heap m a) ini = Inr False \<longrightarrow>
      fst (step_execute a m) = Inl (PreconditionError (name (heap m a)) ini)) \<and>
   (check (heap m a) (world m) = (Inr ini, w1) \<and>
    precondition (heap m a) ini = Inr True \<and>
    action (heap m a) ini w1 = (Inr (), w2) \<and>
    check (heap m a) w2 = (Inr final, w3) \<and>
    final \<noteq> expected (heap m a) \<longrightarrow>
      fst (step_execute a m) =
        Inl (PostconditionError (name (heap m a)) final (expected (heap m a))))"
proof (intro conjI impI; (elim conjE)?)
  show "fst (wrap s p act m) = Inl (ExecutionError (name s) p e)"
    if "act (world m) = (Inl e, w)" and "is_Exception e"
    using that by (simp add: wrap_def)
qed (simp_all add: step_execute_check_raises step_execute_action_raises
    step_execute_final_check_raises step_rollback_action_raises step_rollback_check_raises
    step_execute_precondition_false step_execute_postcondition_fails reclassified_Exception)

theorem wrap_reclassifies_witness:
  "(action failure_action None (world (test_machine [failure_action])) =
      (Inl (Exception ''action''), 0) \<and>
    fst (wrap failure_action EXECUTE (action failure_action None)
      (test_machine [failure_action])) =
      Inl (ExecutionError ''failure_action'' EXECUTE (Exception ''action''))) \<and>
   (check (heap (test_machine [failure_check]) 0) (world (test_machine [failure_check])) =
      (Inl (Exception ''check''), 0) \<and>
    fst (step_execute 0 (test_machine [failure_check])) =
      Inl (ExecutionError ''failure_check'' CHECK_INITIAL (Exception ''check''))) \<and>
   (action (heap (test_machine [failure_action]) 0) (Some []) 0 =
      (Inl (Exception ''action''), 0) \<and>
    fst (step_execute 0 (test_machine [failure_action])) =
      Inl (ExecutionError ''failure_action'' EXECUTE (Exception ''action''))) \<and>
   (check (heap (test_machine [failure_check_final]) 0) 1 = (Inl (Exception ''check''), 1) \<and>
    fst (step_execute 0 (test_machine [failure_check_final])) =
      Inl (ExecutionError ''failure_check_final'' CHECK_FINAL (Exception ''check''))) \<and>
   (rollback_action (heap (snd (step_execute 0 (test_machine [failure_rollback_action]))) 0)
      (initial (heap (snd (step_execute 0 (test_machine [failure_rollback_action]))) 0))
      (world (snd (step_execute 0 (test_machine [failure_rollback_action])))) =
      (Inl (Exception ''rollback''), 0) \<and>
    fst (step_rollback 0 (snd (step_execute 0 (test_machine [failure_rollback_action])))) =
      Inl (ExecutionError ''failure_rollback_action'' ROLLBACK (Exception ''rollback''))) \<and>
   (check (heap (snd (step_execute 0 (test_machine [failure_check_rollback]))) 0) 2 =
      (Inl (Exception ''check''), 2) \<and>
    fst (step_rollback 0 (snd (step_execute 0 (test_machine [failure_check_rollback])))) =
      Inl (ExecutionError ''failure_check_rollback'' CHECK_ROLLBACK (Exception ''check''))) \<and>
   (precondition (heap (test_machine [failure_precondition]) 0) (Some []) = Inr False \<and>
    fst (step_execute 0 (test_machine [failure_precondition])) =
      Inl (PreconditionError ''failure_precondition'' (Some []))) \<and>
   (Some [] \<noteq> expected (heap (test_machine [failure_postcondition]) 0) \<and>
    fst (step_execute 0 (test_machine [failure_postcondition])) =
      Inl (PostconditionError ''failure_postcondition'' (Some []) (Some [(''a'', 1)])))"
proof -
  have ia: "is_Exception (Exception ''action'' :: dict exc)"
    and ic: "is_Exception (Exception ''check'' :: dict exc)"
    and ir: "is_Exception (Exception ''rollback'' :: dict exc)"
    by simp_all
  let ?FA = "test_machine [failure_action]"
  let ?FC = "test_machine [failure_check]"
  let ?FF = "test_machine [failure_check_final]"
  let ?FR = "snd (step_execute 0 (test_machine [failure_rollback_action]))"
  let ?FB = "snd (step_execute 0 (test_machine [failure_check_rollback]))"
  let ?FP = "test_machine [failure_precondition]"
  let ?FQ = "test_machine [failure_postcondition]"
  have w1: "action failure_action None (world ?FA) = (Inl (Exception ''action''), 0)"
    and wn: "name failure_action = ''failure_action''"
    by (simp_all add: eval_defs failure_action_def)
  have g1: "fst (wrap failure_action EXECUTE (action failure_action None) ?FA) =
      Inl (ExecutionError ''failure_action'' EXECUTE (Exception ''action''))"
    using wrap_reclassifies[where act="action failure_action None" and m="?FA"
        and s=failure_action and p=EXECUTE, THEN conjunct1, THEN mp, OF conjI[OF w1 ia]] wn
    by simp
  have c1: "check (heap ?FC 0) (world ?FC) = (Inl (Exception ''check''), 0)"
    and cn: "name (heap ?FC 0) = ''failure_check''"
    by (simp_all add: eval_defs failure_check_def)
  have g2: "fst (step_execute 0 ?FC) =
      Inl (ExecutionError ''failure_check'' CHECK_INITIAL (Exception ''check''))"
    using wrap_reclassifies[where m="?FC" and a=0, THEN conjunct2, THEN conjunct1, THEN mp,
        OF conjI[OF c1 ic]] cn
    by simp
  have a1: "check (heap ?FA 0) (world ?FA) = (Inr (Some []), 0)"
    and a2: "precondition (heap ?FA 0) (Some []) = Inr True"
    and a3: "action (heap ?FA 0) (Some []) 0 = (Inl (Exception ''action''), 0)"
    and an: "name (heap ?FA 0) = ''failure_action''"
    by (simp_all add: eval_defs failure_action_def)
  have g3: "fst (step_execute 0 ?FA) =
      Inl (ExecutionError ''failure_action'' EXECUTE (Exception ''action''))"
    using wrap_reclassifies[where m="?FA" and a=0, THEN conjunct2, THEN conjunct2,
        THEN conjunct1, THEN mp, OF conjI[OF a1 conjI[OF a2 conjI[OF a3 ia]]]] an
    by simp
  have f1: "check (heap ?FF 0) (world ?FF) = (Inr (Some []), 0)"
    and f2: "precondition (heap ?FF 0) (Some []) = Inr True"
    and f3: "action (heap ?FF 0) (Some []) 0 = (Inr (), 1)"
    and f4: "check (heap ?FF 0) 1 = (Inl (Exception ''check''), 1)"
    and fn: "name (heap ?FF 0) = ''failure_check_final''"
    by (simp_all add: eval_defs failure_check_final_def)
  have g4: "fst (step_execute 0 ?FF) =
      Inl (ExecutionError ''failure_check_final'' CHECK_FINAL (Exception ''check''))"
    using wrap_reclassifies[where m="?FF" and a=0, THEN conjunct2, THEN conjunct2,
        THEN conjunct2, THEN conjunct1, THEN mp, OF conjI[OF f1 conjI[OF f2 conjI[OF f3 conjI[OF f4 ic]]]]] fn
    by simp
  have r1: "rollback_action (heap ?FR 0) (initial (heap ?FR 0)) (world ?FR) =
      (Inl (Exception ''rollback''), 0)"
    and rn: "name (heap ?FR 0) = ''failure_rollback_action''"
    by (simp_all add: eval_defs failure_rollback_action_def)
  have g5: "fst (step_rollback 0 ?FR) =
      Inl (ExecutionError ''failure_rollback_action'' ROLLBACK (Exception ''rollback''))"
    using wrap_reclassifies[where m="?FR" and a=0, THEN conjunct2, THEN conjunct2,
        THEN conjunct2, THEN conjunct2, THEN conjunct1, THEN mp, OF conjI[OF r1 ir]] rn
    by simp
  have b1: "rollback_action (heap ?FB 0) (initial (heap ?FB 0)) (world ?FB) = (Inr (), 2)"
    and b2: "check (heap ?FB 0) 2 = (Inl (Exception ''check''), 2)"
    and bn: "name (heap ?FB 0) = ''failure_check_rollback''"
    by (simp_all add: eval_defs failure_check_rollback_def)
  have g6: "fst (step_rollback 0 ?FB) =
      Inl (ExecutionError ''failure_check_rollback'' CHECK_ROLLBACK (Exception ''check''))"
    using wrap_reclassifies[where m="?FB" and a=0, THEN conjunct2, THEN conjunct2,
        THEN conjunct2, THEN conjunct2, THEN conjunct2, THEN conjunct1, THEN mp,
        OF conjI[OF b1 conjI[OF b2 ic]]] bn
    by simp
  have p1: "check (heap ?FP 0) (world ?FP) = (Inr (Some []), 0)"
    and p2: "precondition (heap ?FP 0) (Some []) = Inr False"
    and pn: "name (heap ?FP 0) = ''failure_precondition''"
    by (simp_all add: eval_defs failure_precondition_def)
  have g7: "fst (step_execute 0 ?FP) = Inl (PreconditionError ''failure_precondition'' (Some []))"
    using wrap_reclassifies[where m="?FP" and a=0, THEN conjunct2, THEN conjunct2,
        THEN conjunct2, THEN conjunct2, THEN conjunct2, THEN conjunct2, THEN conjunct1, THEN mp,
        OF conjI[OF p1 p2]] pn
    by simp
  have q1: "check (heap ?FQ 0) (world ?FQ) = (Inr (Some []), 0)"
    and q2: "precondition (heap ?FQ 0) (Some []) = Inr True"
    and q3: "action (heap ?FQ 0) (Some []) 0 = (Inr (), 0)"
    and q4: "check (heap ?FQ 0) 0 = (Inr (Some []), 0)"
    and q5: "Some [] \<noteq> expected (heap ?FQ 0)"
    and qn: "name (heap ?FQ 0) = ''failure_postcondition''"
      "expected (heap ?FQ 0) = Some [(''a'', 1)]"
    by (simp_all add: eval_defs failure_postcondition_def)
  have g8: "fst (step_execute 0 ?FQ) =
      Inl (PostconditionError ''failure_postcondition'' (Some []) (Some [(''a'', 1)]))"
    using wrap_reclassifies[where m="?FQ" and a=0, THEN conjunct2, THEN conjunct2,
        THEN conjunct2, THEN conjunct2, THEN conjunct2, THEN conjunct2, THEN conjunct2, THEN mp,
        OF conjI[OF q1 conjI[OF q2 conjI[OF q3 conjI[OF q4 q5]]]]] qn
    by simp
  show ?thesis
    using w1 g1 c1 g2 a3 g3 f4 g4 r1 g5 b2 g6 p2 g7 q5 g8 by blast
qed

text \<open>
  C9, as the code has it. In the release of one step whose precondition raises a
  Postcondition error, \<^verbatim>\<open>Release.execute\<close> catches that error in its clause for Postcondition
  errors: it records the error, appends the step and enters \<^verbatim>\<open>Release.rollback\<close>.
\<close>

theorem precondition_raising_caught_error_counterexample:
  "precondition (heap (test_machine [raising_precondition
       (PostconditionError ''x'' (Some []) (Some []))]) 0) (Some []) =
     Inl (PostconditionError ''x'' (Some []) (Some [])) \<and>
   outcome (release_execute (Release_init ''test'' [0])
     (test_machine [raising_precondition (PostconditionError ''x'' (Some []) (Some []))])) =
     Inl (PostconditionError ''x'' (Some []) (Some [])) \<and>
   exceptions (final_release (release_execute (Release_init ''test'' [0])
     (test_machine [raising_precondition (PostconditionError ''x'' (Some []) (Some []))]))) =
     [PostconditionError ''x'' (Some []) (Some [])] \<and>
   executed_steps (final_release (release_execute (Release_init ''test'' [0])
     (test_machine [raising_precondition (PostconditionError ''x'' (Some []) (Some []))]))) =
     [0] \<and>
   ReleaseRollback \<in> set (trace (final_machine (release_execute (Release_init ''test'' [0])
     (test_machine [raising_precondition (PostconditionError ''x'' (Some []) (Some []))]))))"
  by (simp add: eval_defs raising_precondition_def)

text \<open>
  C9, amended. When the steps \<open>pre\<close> of a release have succeeded and the precondition of the
  next step \<open>a\<close> raises \<open>e\<close> on what its check returned, \<^verbatim>\<open>Step.execute\<close> raises \<open>e\<close> itself,
  not an Execution error in its place. If \<open>e\<close> is not of a class that \<^verbatim>\<open>Release.execute\<close>
  catches (Precondition, Postcondition, Execution error), \<^verbatim>\<open>Release.execute\<close> raises \<open>e\<close> too,
  records no exception, does not append the step, and stops where \<^verbatim>\<open>Step.execute\<close> stopped,
  without entering \<^verbatim>\<open>Release.rollback\<close>. If \<open>e\<close> is of such a class, \<^verbatim>\<open>Release.execute\<close> raises
  \<open>e\<close> after the rollback, or what has left the rollback uncaught.
\<close>

theorem precondition_raises:
  assumes "steps_succeed pre m"
    and "check (heap (run_steps pre m) a) (world (run_steps pre m)) = (Inr ini, w1)"
    and "precondition (heap (run_steps pre m) a) ini = Inl e"
  shows "let m1 = run_steps pre m;
             step = step_execute a m1;
             run = release_execute (Release_init nm (pre @ a # post)) m in
     fst step = Inl e \<and>
     outcome run =
       Inl (if caught e
            then raised_after (fst (cascade (executed_steps (final_release run)) (snd step))) e
            else e) \<and>
     (\<not> caught e \<longrightarrow>
        outcome run = Inl e \<and>
        exceptions (final_release run) = [] \<and>
        executed_steps (final_release run) = pre \<and>
        final_machine run = snd step \<and>
        ReleaseRollback \<notin> set (new_events m (final_machine run)))"
proof -
  let ?m1 = "run_steps pre m"
  let ?r = "(Release_init nm (pre @ a # post))\<lparr>executed_steps := pre\<rparr>"
  note S = step_execute_precondition_raises[OF assms(2,3)]
  note R = release_execute_failure[OF assms(1), of nm a post]
  have f: "fst (step_execute a ?m1) = Inl e"
    by (simp add: S)
  have o: "outcome (execute_loop (a # post) ?r ?m1) =
      Inl (if caught e
           then raised_after (fst (cascade (executed_steps
                  (final_release (execute_loop (a # post) ?r ?m1)))
                  (snd (step_execute a ?m1)))) e
           else e)"
    using execute_loop_failure_outcome[OF S, of post ?r] by (simp add: S)
  have u: "outcome (execute_loop (a # post) ?r ?m1) = Inl e \<and>
      exceptions (final_release (execute_loop (a # post) ?r ?m1)) = [] \<and>
      executed_steps (final_release (execute_loop (a # post) ?r ?m1)) = pre \<and>
      final_machine (execute_loop (a # post) ?r ?m1) = snd (step_execute a ?m1) \<and>
      ReleaseRollback \<notin> set (new_events m (final_machine (execute_loop (a # post) ?r ?m1)))"
    if nc: "\<not> caught e"
  proof -
    obtain evs where evs: "trace ?m1 = trace m @ evs" "ReleaseRollback \<notin> set evs"
      using run_steps_trace[of pre m] by blast
    show ?thesis
      unfolding execute_loop_uncaught[OF S nc]
      by (simp add: S outcome_def final_release_def final_machine_def new_events_def
          Release_init_def evs)
  qed
  show ?thesis
    unfolding Let_def R using f o u by blast
qed

theorem precondition_raises_witness:
  "steps_succeed [0] (test_machine [success, raising_precondition (Exception ''KeyError''), success]) \<and>
   check (heap (run_steps [0]
       (test_machine [success, raising_precondition (Exception ''KeyError''), success])) 1)
     (world (run_steps [0]
       (test_machine [success, raising_precondition (Exception ''KeyError''), success]))) =
     (Inr (Some []), 0) \<and>
   precondition (heap (run_steps [0]
       (test_machine [success, raising_precondition (Exception ''KeyError''), success])) 1)
     (Some []) = Inl (Exception ''KeyError'') \<and>
   \<not> caught (Exception ''KeyError'' :: dict exc) \<and>
   fst (step_execute 1 (run_steps [0]
       (test_machine [success, raising_precondition (Exception ''KeyError''), success]))) =
     Inl (Exception ''KeyError'') \<and>
   outcome (release_execute (Release_init ''test'' [0, 1, 2])
     (test_machine [success, raising_precondition (Exception ''KeyError''), success])) =
     Inl (Exception ''KeyError'') \<and>
   exceptions (final_release (release_execute (Release_init ''test'' [0, 1, 2])
     (test_machine [success, raising_precondition (Exception ''KeyError''), success]))) = [] \<and>
   executed_steps (final_release (release_execute (Release_init ''test'' [0, 1, 2])
     (test_machine [success, raising_precondition (Exception ''KeyError''), success]))) = [0] \<and>
   ReleaseRollback \<notin> set (new_events
     (test_machine [success, raising_precondition (Exception ''KeyError''), success])
     (final_machine (release_execute (Release_init ''test'' [0, 1, 2])
        (test_machine [success, raising_precondition (Exception ''KeyError''), success]))))"
proof -
  let ?M = "test_machine [success, raising_precondition (Exception ''KeyError''), success]"
  have h1: "steps_succeed [0] ?M"
    by (simp add: eval_defs success_def)
  have h2: "check (heap (run_steps [0] ?M) 1) (world (run_steps [0] ?M)) = (Inr (Some []), 0)"
    by (simp add: eval_defs success_def raising_precondition_def)
  have h3: "precondition (heap (run_steps [0] ?M) 1) (Some []) = Inl (Exception ''KeyError'')"
    by (simp add: eval_defs success_def raising_precondition_def)
  have h4: "\<not> caught (Exception ''KeyError'' :: dict exc)"
    by simp
  note T = precondition_raises[OF h1 h2 h3, of "''test''" "[2]", unfolded Let_def append.simps]
  show ?thesis
    using T h1 h2 h3 h4 by blast
qed

text \<open>
  C10, as the code has it. A step whose check returns \<^verbatim>\<open>None\<close> succeeds and is in
  \<^verbatim>\<open>executed_steps\<close> with \<^verbatim>\<open>None\<close> as its stored initial state. And when a release lists the
  same step object twice, the second execution of the step overwrites the state that the
  first has stored: with the counting step, whose check returned \<open>0\<close> before its action
  ran first, both entries of \<^verbatim>\<open>executed_steps\<close> have \<open>1\<close> as their stored initial state,
  observed after that action.
\<close>

theorem stored_initial_counterexample:
  "executed_steps (final_release
     (release_execute (Release_init ''test'' [0]) (test_machine [returning_none]))) = [0] \<and>
   initial (heap (final_machine
     (release_execute (Release_init ''test'' [0]) (test_machine [returning_none]))) 0) = None \<and>
   check (heap (test_machine [counting]) 0) (world (test_machine [counting])) =
     (Inr (Some [(''w'', 0)]), 0) \<and>
   executed_steps (final_release
     (release_execute (Release_init ''test'' [0, 0]) (test_machine [counting]))) = [0, 0] \<and>
   initial (heap (final_machine
     (release_execute (Release_init ''test'' [0, 0]) (test_machine [counting]))) 0) =
     Some [(''w'', 1)]"
  by (simp add: eval_defs returning_none_def counting_def)

text \<open>
  C10, amended. When the steps of a release are distinct objects, a step \<open>a\<close> that is in
  \<^verbatim>\<open>executed_steps\<close> after \<^verbatim>\<open>Release.execute\<close> was reached after the steps \<open>pre\<close> before it had
  succeeded, and its stored initial state is what its check returned then, before its
  action (\<^verbatim>\<open>None\<close> if the check returned \<^verbatim>\<open>None\<close>). The rollback loop leaves the stored
  states as they are, and the rollback of a step succeeds or raises the
  RollbackPostcondition error according to whether what its check returns is equal to the
  stored initial state.
\<close>

theorem executed_steps_have_initial:
  "(distinct (pre @ a # post) \<and>
    a \<in> set (executed_steps (final_release
      (release_execute (Release_init nm (pre @ a # post)) m))) \<longrightarrow>
      steps_succeed pre m \<and>
      (\<exists>ini w. check (heap m a) (world (run_steps pre m)) = (Inr ini, w) \<and>
         initial (heap (final_machine (release_execute (Release_init nm (pre @ a # post)) m)) a) =
           ini)) \<and>
   heap (snd (rollback_loop bs m)) = heap m \<and>
   (rollback_action (heap m a) (initial (heap m a)) (world m) = (Inr (), w1) \<and>
    check (heap m a) w1 = (Inr final, w2) \<longrightarrow>
      fst (step_rollback a m) =
        (if final = initial (heap m a) then Inr ()
         else Inl (RollbackPostconditionError (name (heap m a)) final (initial (heap m a)))))"
  using executed_step_initial[of pre a post nm m] rollback_loop_heap[of bs m]
    step_rollback_verdict[of m a w1 final w2]
  by blast

theorem executed_steps_have_initial_witness:
  "distinct ([0] @ 1 # [2::nat]) \<and>
   1 \<in> set (executed_steps (final_release (release_execute (Release_init ''test'' [0, 1, 2])
     (test_machine [success, failure_postcondition, success])))) \<and>
   initial (heap (test_machine [success, failure_postcondition, success]) 1) = None \<and>
   steps_succeed [0] (test_machine [success, failure_postcondition, success]) \<and>
   check (heap (test_machine [success, failure_postcondition, success]) 1)
     (world (run_steps [0] (test_machine [success, failure_postcondition, success]))) =
     (Inr (Some []), 0) \<and>
   initial (heap (final_machine (release_execute (Release_init ''test'' [0, 1, 2])
     (test_machine [success, failure_postcondition, success]))) 1) = Some [] \<and>
   heap (snd (rollback_loop [0, 1] (snd (step_execute 0 (test_machine [success, success]))))) =
     heap (snd (step_execute 0 (test_machine [success, success]))) \<and>
   rollback_action (heap (snd (step_execute 0 (test_machine [success])))  0)
     (initial (heap (snd (step_execute 0 (test_machine [success]))) 0))
     (world (snd (step_execute 0 (test_machine [success])))) = (Inr (), 0) \<and>
   check (heap (snd (step_execute 0 (test_machine [success]))) 0) 0 = (Inr (Some []), 0) \<and>
   fst (step_rollback 0 (snd (step_execute 0 (test_machine [success])))) = Inr ()"
proof -
  let ?M = "test_machine [success, failure_postcondition, success]"
  let ?run = "release_execute (Release_init ''test'' [0, 1, 2]) ?M"
  let ?N = "snd (step_execute 0 (test_machine [success, success]))"
  let ?R = "snd (step_execute 0 (test_machine [success]))"
  note T = executed_steps_have_initial[where nm="''test''" and m="?M"
      and pre="[0]" and a=1 and post="[2]"]
  have mem: "1 \<in> set (executed_steps (final_release ?run))"
    by (simp add: eval_defs success_def failure_postcondition_def)
  have none: "initial (heap ?M 1) = None"
    by (simp add: eval_defs failure_postcondition_def)
  have d: "distinct ([0] @ 1 # [2::nat])"
    by simp
  have mem': "1 \<in> set (executed_steps (final_release
      (release_execute (Release_init ''test'' ([0] @ 1 # [2])) ?M)))"
    using mem by simp
  have c: "check (heap ?M 1) (world (run_steps [0] ?M)) = (Inr (Some []), 0)"
    by (simp add: eval_defs success_def failure_postcondition_def)
  have g2: "steps_succeed [0] ?M \<and> initial (heap (final_machine ?run) 1) = Some []"
    using T[THEN conjunct1, THEN mp, OF conjI[OF d mem']] c by auto
  have g3: "heap (snd (rollback_loop [0, 1] ?N)) = heap ?N"
    using executed_steps_have_initial[where bs="[0, 1]" and m="?N", THEN conjunct2,
        THEN conjunct1] .
  have r1: "rollback_action (heap ?R 0) (initial (heap ?R 0)) (world ?R) = (Inr (), 0)"
    and r2: "check (heap ?R 0) 0 = (Inr (Some []), 0)"
    and r3: "initial (heap ?R 0) = Some []"
    by (simp_all add: eval_defs success_def)
  have g4: "fst (step_rollback 0 ?R) = Inr ()"
    using executed_steps_have_initial[where m="?R" and a=0, THEN conjunct2, THEN conjunct2,
        THEN mp, OF conjI[OF r1 r2]] r3
    by simp
  show ?thesis
    using d mem none g2 c g3 r1 r2 g4 by blast
qed

end
